theory Spec2Isabelle
  imports Complex_Main "HOL-Library.AList"
begin

section \<open>Python values used by pyvrs\<close>

text \<open>
  Exceptions raised by the Python layer and by the bound record store are values.
  \<open>StoreError\<close> stands for a store failure that is not an \<open>IndexError\<close>
  (ValueError, TimestampNotFoundError, RuntimeError, ...), tagged with its class name.
\<close>

datatype py_error =
    IndexError
  | KeyError
  | AssertionError
  | NotImplementedError
  | AttributeError
  | ValueError
  | StoreError string

text \<open>
  \<open>xs[i]\<close> on a Python list: a negative index counts from the end, and an index outside
  \<open>[-len, len)\<close> raises IndexError.
\<close>

definition py_getitem :: "'a list \<Rightarrow> int \<Rightarrow> py_error + 'a" where
  "py_getitem xs i =
     (if 0 \<le> i \<and> i < int (length xs) then Inr (xs ! nat i)
      else if - int (length xs) \<le> i \<and> i < 0 then Inr (xs ! nat (i + int (length xs)))
      else Inl IndexError)"

text \<open>
  \<open>xs[start:stop:step]\<close>: each bound is optional. The bounds are adjusted as CPython's
  \<open>PySlice_AdjustIndices\<close> does (a negative bound counts from the end, a bound out of
  range is clamped), a zero step raises ValueError.
\<close>

datatype py_slice = Slice "int option" "int option" "int option"

definition adjust_index :: "int \<Rightarrow> int \<Rightarrow> int \<Rightarrow> int" where
  "adjust_index n step i =
     (if i < 0
      then (if i + n < 0 then (if step < 0 then - 1 else 0) else i + n)
      else if i \<ge> n then (if step < 0 then n - 1 else n)
      else i)"

definition slice_indices :: "int \<Rightarrow> py_slice \<Rightarrow> py_error + (int \<times> int \<times> int)" where
  "slice_indices n s =
     (case s of Slice start stop step \<Rightarrow>
        (let st = (case step of None \<Rightarrow> 1 | Some k \<Rightarrow> k)
         in if st = 0 then Inl ValueError
            else Inr ((case start of
                         None \<Rightarrow> (if st < 0 then n - 1 else 0)
                       | Some a \<Rightarrow> adjust_index n st a),
                      (case stop of
                         None \<Rightarrow> (if st < 0 then - 1 else n)
                       | Some b \<Rightarrow> adjust_index n st b),
                      st)))"

definition slice_length :: "int \<Rightarrow> int \<Rightarrow> int \<Rightarrow> nat" where
  "slice_length start stop step =
     (if step < 0
      then (if stop < start then nat ((start - stop - 1) div (- step) + 1) else 0)
      else (if start < stop then nat ((stop - start - 1) div step + 1) else 0))"

definition py_getslice :: "'a list \<Rightarrow> py_slice \<Rightarrow> py_error + 'a list" where
  "py_getslice xs s =
     (case slice_indices (int (length xs)) s of
        Inl e \<Rightarrow> Inl e
      | Inr (start, stop, step) \<Rightarrow>
          Inr (map (\<lambda>k. xs ! nat (start + int k * step))
                 [0 ..< slice_length start stop step]))"

text \<open>
  \<open>bisect.bisect\<close> (an alias of \<open>bisect_right\<close>) of the Python standard library, as its
  pure Python loop:
  \<^verbatim>\<open>
    while lo < hi:
        mid = (lo + hi) // 2
        if x < a[mid]: hi = mid
        else: lo = mid + 1
    return lo
  \<close>
\<close>

function bisect_loop :: "int list \<Rightarrow> int \<Rightarrow> nat \<Rightarrow> nat \<Rightarrow> nat" where
  "bisect_loop a x lo hi =
     (if lo < hi
      then (let mid = (lo + hi) div 2
            in if x < a ! mid then bisect_loop a x lo mid
               else bisect_loop a x (mid + 1) hi)
      else lo)"
  by pat_completeness auto
termination
  by (relation "measure (\<lambda>(a, x, lo, hi). hi - lo)") auto

declare bisect_loop.simps [simp del]

definition bisect :: "int list \<Rightarrow> int \<Rightarrow> nat" where
  "bisect a x = bisect_loop a x 0 (length a)"

section \<open>utils.py\<close>

subsection \<open>Set filters\<close>

text \<open>
  \<open>fnmatch.fnmatch(name, pat)\<close> of the Python standard library (on POSIX, where
  \<open>normcase\<close> is the identity): \<open>*\<close> matches any run of characters, \<open>?\<close> any single
  character, any other character itself. A bracket expression \<open>[...]\<close> is handed, with
  the rest of the name, to the parameter \<open>bracket\<close>: its character-class rules are not
  used by pyvrs and are left open.
\<close>

fun fnmatch :: "(string \<Rightarrow> string \<Rightarrow> bool) \<Rightarrow> string \<Rightarrow> string \<Rightarrow> bool" where
  "fnmatch bracket [] [] = True"
| "fnmatch bracket (c # cs) [] = False"
| "fnmatch bracket name (p # ps) =
     (if p = CHR ''*''
      then fnmatch bracket name ps \<or>
           (case name of [] \<Rightarrow> False | c # cs \<Rightarrow> fnmatch bracket cs (p # ps))
      else if p = CHR ''?''
      then (case name of [] \<Rightarrow> False | c # cs \<Rightarrow> fnmatch bracket cs ps)
      else if p = CHR ''[''
      then bracket name (p # ps)
      else (case name of [] \<Rightarrow> False | c # cs \<Rightarrow> c = p \<and> fnmatch bracket cs ps))"

text \<open>
  \<open>_filter_set_on_condition\<close>: an element of \<open>s\<close> is retained when the comparator holds for
  it and some item. The two loops build a set, so the order of iteration is immaterial.
\<close>

definition filter_set_on_condition ::
  "'a set \<Rightarrow> 'a set \<Rightarrow> ('a \<Rightarrow> 'a \<Rightarrow> bool) \<Rightarrow> 'a set" where
  "filter_set_on_condition s items cond_func =
     Set.filter (\<lambda>a. \<exists>b \<in> items. cond_func a b) s"

definition filter_by_stream_ids ::
  "(string \<Rightarrow> string \<Rightarrow> bool) \<Rightarrow> string set \<Rightarrow> string set \<Rightarrow> string set" where
  "filter_by_stream_ids bracket available_stream_ids regex_stream_ids =
     filter_set_on_condition available_stream_ids regex_stream_ids (fnmatch bracket)"

definition filter_by_record_type :: "string set \<Rightarrow> string set \<Rightarrow> string set" where
  "filter_by_record_type available_record_types requested_record_types =
     filter_set_on_condition available_record_types requested_record_types (\<lambda>a b. a = b)"

subsection \<open>Metadata keys\<close>

text \<open>
  A Python \<open>dict\<close> with string keys is an association list in insertion order:
  \<open>d[k] = v\<close> is \<open>AList.update\<close> (in place for an existing key, appended otherwise),
  \<open>k in d\<close> is \<open>map_of d k \<noteq> None\<close>, and \<open>d.pop(k)\<close> raises KeyError for a missing key.
\<close>

definition dict_pop :: "(string \<times> 'v) list \<Rightarrow> string \<Rightarrow> py_error + ('v \<times> (string \<times> 'v) list)" where
  "dict_pop d k =
     (case map_of d k of
        None \<Rightarrow> Inl KeyError
      | Some v \<Rightarrow> Inr (v, AList.delete k d))"

definition bracketed_key :: "string \<Rightarrow> string \<Rightarrow> nat \<Rightarrow> string" where
  "bracketed_key name type' i = name @ replicate i CHR ''<'' @ type' @ replicate i CHR ''>''"

function unique_string_loop ::
  "string \<Rightarrow> string \<Rightarrow> (string \<times> 'v) list \<Rightarrow> nat \<Rightarrow> string" where
  "unique_string_loop name type' dict' i =
     (let new_key = bracketed_key name type' i
      in if map_of dict' new_key = None then new_key
         else unique_string_loop name type' dict' (i + 1))"
  by pat_completeness auto
termination
proof (relation "measure (\<lambda>(name, type', dict', i).
         length (filter (\<lambda>k. length name + length type' + 2 * i \<le> length k) (map fst dict')))")
  show "wf (measure (\<lambda>(name, type', dict' :: (string \<times> 'v) list, i).
         length (filter (\<lambda>k. length name + length type' + 2 * i \<le> length k) (map fst dict'))))"
    by simp
next
  fix name type' :: string and dict' :: "(string \<times> 'v) list" and i :: nat and x :: string
  assume x: "x = bracketed_key name type' i" and "map_of dict' x \<noteq> None"
  then have mem: "x \<in> set (map fst dict')"
    by (metis map_of_eq_None_iff set_map)
  let ?P = "\<lambda>k. length name + length type' + 2 * i \<le> length k"
  let ?Q = "\<lambda>k. length name + length type' + 2 * (i + 1) \<le> length k"
  have len: "length x = length name + length type' + 2 * i"
    by (simp add: x bracketed_key_def)
  have "filter ?Q (map fst dict') = filter ?Q (filter ?P (map fst dict'))"
    by (auto intro: filter_cong)
  moreover have "x \<in> set (filter ?P (map fst dict'))"
    using mem len by simp
  moreover have "\<not> ?Q x"
    using len by simp
  ultimately have "length (filter ?Q (map fst dict')) < length (filter ?P (map fst dict'))"
    by (metis length_filter_less)
  then show "((name, type', dict', i + 1), (name, type', dict', i))
      \<in> measure (\<lambda>(name, type', dict', i).
         length (filter (\<lambda>k. length name + length type' + 2 * i \<le> length k) (map fst dict')))"
    by simp
qed

declare unique_string_loop.simps [simp del]

definition unique_string_for_key :: "string \<Rightarrow> string \<Rightarrow> (string \<times> 'v) list \<Rightarrow> string" where
  "unique_string_for_key name type' dict' = unique_string_loop name type' dict' 1"

record 'v resolver_state =
  filtered :: "(string \<times> 'v) list"
  ambiguous_names :: "string set"
  removed_types :: "(string \<times> string) list"

text \<open>One iteration of the loop of \<open>stringify_metadata_keys\<close>.\<close>

definition stringify_step ::
  "'v resolver_state \<Rightarrow> (string \<times> string) \<times> 'v \<Rightarrow> py_error + 'v resolver_state" where
  "stringify_step st item =
     (case item of ((name, type'), value) \<Rightarrow>
        if name \<in> ambiguous_names st
        then Inr (st\<lparr>filtered :=
                       AList.update (unique_string_for_key name type' (filtered st)) value
                         (filtered st)\<rparr>)
        else if map_of (filtered st) name \<noteq> None
        then (case dict_pop (filtered st) name of
                Inl e \<Rightarrow> Inl e
              | Inr (old_value, f1) \<Rightarrow>
                  (case dict_pop (removed_types st) name of
                     Inl e \<Rightarrow> Inl e
                   | Inr (old_type, r1) \<Rightarrow>
                       (let f2 = AList.update (unique_string_for_key name old_type f1) old_value f1;
                            f3 = AList.update (unique_string_for_key name type' f2) value f2
                        in Inr \<lparr>filtered = f3,
                                ambiguous_names = insert name (ambiguous_names st),
                                removed_types = r1\<rparr>)))
        else Inr (st\<lparr>filtered := AList.update name value (filtered st),
                     removed_types := AList.update name type' (removed_types st)\<rparr>))"

fun stringify_loop ::
  "'v resolver_state \<Rightarrow> ((string \<times> string) \<times> 'v) list \<Rightarrow> py_error + 'v resolver_state" where
  "stringify_loop st [] = Inr st"
| "stringify_loop st (item # items) =
     (case stringify_step st item of
        Inl e \<Rightarrow> Inl e
      | Inr st' \<Rightarrow> stringify_loop st' items)"

text \<open>
  The argument is the list \<open>metadata_dict.items()\<close>, in the dict's insertion order.
\<close>

definition stringify_metadata_keys ::
  "((string \<times> string) \<times> 'v) list \<Rightarrow> py_error + (string \<times> 'v) list" where
  "stringify_metadata_keys metadata_dict =
     (case stringify_loop \<lparr>filtered = [], ambiguous_names = {}, removed_types = []\<rparr>
             metadata_dict of
        Inl e \<Rightarrow> Inl e
      | Inr st \<Rightarrow> Inr (filtered st))"

text \<open>
  The invariant of the loop: after \<open>n\<close> entries the output holds \<open>n\<close> entries under
  pairwise distinct keys.
\<close>

definition resolver_inv :: "'v resolver_state \<Rightarrow> nat \<Rightarrow> bool" where
  "resolver_inv st n \<longleftrightarrow> length (filtered st) = n \<and> distinct (map fst (filtered st))"

text \<open>
  The resolver as section 4.7 of the specification words it, for comparison with
  \<open>stringify_metadata_keys\<close>. Its state holds the output, the ambiguous names and the
  entries stored bare so far (name, type, value). An entry of an ambiguous name gets a
  synthesized key (rule 3); an entry whose name is stored bare is a first collision: the
  bare entry and the new one are re-keyed and the name becomes ambiguous (rule 2); any
  other entry is a first occurrence and is stored bare (rule 1). Synthesized keys are
  made free by adding brackets (rule 4).
\<close>

record 'v spec_state =
  spec_out :: "(string \<times> 'v) list"
  spec_ambiguous :: "string set"
  spec_bare :: "(string \<times> string \<times> 'v) list"

definition resolve_entry :: "'v spec_state \<Rightarrow> (string \<times> string) \<times> 'v \<Rightarrow> 'v spec_state" where
  "resolve_entry sp item =
     (case item of ((name, type'), value) \<Rightarrow>
        if name \<in> spec_ambiguous sp
        then sp\<lparr>spec_out :=
                  AList.update (unique_string_for_key name type' (spec_out sp)) value
                    (spec_out sp)\<rparr>
        else (case map_of (spec_bare sp) name of
                Some (old_type, old_value) \<Rightarrow>
                  (let o1 = AList.delete name (spec_out sp);
                       o2 = AList.update (unique_string_for_key name old_type o1) old_value o1;
                       o3 = AList.update (unique_string_for_key name type' o2) value o2
                   in \<lparr>spec_out = o3,
                       spec_ambiguous = insert name (spec_ambiguous sp),
                       spec_bare = AList.delete name (spec_bare sp)\<rparr>)
              | None \<Rightarrow>
                  sp\<lparr>spec_out := AList.update name value (spec_out sp),
                     spec_bare := AList.update name (type', value) (spec_bare sp)\<rparr>))"

definition resolve_spec :: "((string \<times> string) \<times> 'v) list \<Rightarrow> (string \<times> 'v) list" where
  "resolve_spec entries =
     spec_out (fold (\<lambda>item sp. resolve_entry sp item) entries
                 \<lparr>spec_out = [], spec_ambiguous = {}, spec_bare = []\<rparr>)"

text \<open>The two resolvers in step: equal output, equal ambiguous names, equal bare types.\<close>

definition resolver_rel :: "'v resolver_state \<Rightarrow> 'v spec_state \<Rightarrow> bool" where
  "resolver_rel st sp \<longleftrightarrow>
     filtered st = spec_out sp \<and> ambiguous_names st = spec_ambiguous sp
     \<and> removed_types st = map (\<lambda>(n, t, v). (n, t)) (spec_bare sp)
     \<and> (\<forall>n t v. map_of (spec_bare sp) n = Some (t, v) \<longrightarrow> map_of (spec_out sp) n = Some v)"

section \<open>The bound record store\<close>

text \<open>
  The pybind \<open>Reader\<close> object behind \<open>self._reader\<close> is not part of the Python sources.
  Its methods are taken as parameters: every method the Python layer calls is a field,
  returning either the exception it raises or its value.
\<close>

record 'r Reader =
  Reader_get_available_records_size :: int
  Reader_get_available_record_types :: "string set"
  Reader_get_available_stream_ids :: "string set"
  Reader_get_min_available_timestamp :: real
  Reader_get_max_available_timestamp :: real
  Reader_get_timestamp_for_index :: "int \<Rightarrow> py_error + real"
  Reader_get_record_index_by_time :: "string \<Rightarrow> real \<Rightarrow> py_error + int"
  Reader_get_nearest_record_index_by_time :: "real \<Rightarrow> real \<Rightarrow> string \<Rightarrow> py_error + int"
  Reader_get_prev_index :: "string \<Rightarrow> string \<Rightarrow> int \<Rightarrow> py_error + int"
  Reader_get_next_index :: "string \<Rightarrow> string \<Rightarrow> int \<Rightarrow> py_error + int"
  Reader_read_record :: "int \<Rightarrow> py_error + 'r"
  Reader_regenerate_enabled_indices ::
    "string set \<Rightarrow> string set \<Rightarrow> real \<Rightarrow> real \<Rightarrow> int list"

section \<open>slice.py\<close>

datatype py_index = Index int | SliceIndex py_slice

text \<open>
  The result of indexing: a materialised record, or a \<open>VRSReaderSlice\<close> holding the reader
  and the selected absolute indices (the path is left out).
\<close>

datatype 'r item = VRSRecord 'r | VRSReaderSlice "'r Reader" "int list"

definition index_or_slice_records ::
  "'r Reader \<Rightarrow> int list \<Rightarrow> py_index \<Rightarrow> py_error + 'r item" where
  "index_or_slice_records reader vrs_indices indices =
     (case indices of
        Index i \<Rightarrow>
          (case py_getitem vrs_indices i of
             Inl e \<Rightarrow> Inl e
           | Inr a \<Rightarrow>
               (case Reader_read_record reader a of
                  Inl e \<Rightarrow> Inl e
                | Inr record \<Rightarrow> Inr (VRSRecord record)))
      | SliceIndex sl \<Rightarrow>
          (case py_getslice vrs_indices sl of
             Inl e \<Rightarrow> Inl e
           | Inr sub \<Rightarrow> Inr (VRSReaderSlice reader sub)))"



section \<open>reader.py and filter.py\<close>

record 'r VRSReader =
  VRSReader_reader :: "'r Reader"
  VRSReader_n_records :: int
  VRSReader_record_types :: "string set"
  VRSReader_stream_ids :: "string set"
  VRSReader_min_timestamp :: real
  VRSReader_max_timestamp :: real

record RecordFilter =
  record_types :: "string set"
  stream_ids :: "string set"
  min_timestamp :: real
  max_timestamp :: real

record 'r FilteredVRSReader =
  FilteredVRSReader_reader :: "'r VRSReader"
  FilteredVRSReader_record_filter :: RecordFilter
  FilteredVRSReader_filtered_indices :: "int list"
  FilteredVRSReader_min_timestamp :: real
  FilteredVRSReader_max_timestamp :: real

subsection \<open>VRSReader\<close>

definition VRSReader_init :: "'r Reader \<Rightarrow> 'r VRSReader" where
  "VRSReader_init reader =
     \<lparr>VRSReader_reader = reader,
      VRSReader_n_records = Reader_get_available_records_size reader,
      VRSReader_record_types = Reader_get_available_record_types reader,
      VRSReader_stream_ids = Reader_get_available_stream_ids reader,
      VRSReader_min_timestamp = Reader_get_min_available_timestamp reader,
      VRSReader_max_timestamp = Reader_get_max_available_timestamp reader\<rparr>"

text \<open>\<open>__getitem__\<close> indexes \<open>range(self.n_records)\<close>.\<close>

definition VRSReader_getitem :: "'r VRSReader \<Rightarrow> py_index \<Rightarrow> py_error + 'r item" where
  "VRSReader_getitem self i =
     index_or_slice_records (VRSReader_reader self)
       (map int [0 ..< nat (VRSReader_n_records self)]) i"

definition VRSReader_len :: "'r VRSReader \<Rightarrow> int" where
  "VRSReader_len self = VRSReader_n_records self"

definition VRSReader_get_timestamp_for_index :: "'r VRSReader \<Rightarrow> int \<Rightarrow> py_error + real" where
  "VRSReader_get_timestamp_for_index self index =
     (if index \<ge> VRSReader_n_records self then Inl IndexError
      else Reader_get_timestamp_for_index (VRSReader_reader self) index)"

text \<open>
  \<open>epsilon\<close> is optional; Python's \<open>if epsilon:\<close> is false for \<open>None\<close> and for \<open>0.0\<close>.
\<close>

definition VRSReader_get_record_index_by_time ::
  "'r VRSReader \<Rightarrow> string \<Rightarrow> real \<Rightarrow> real option \<Rightarrow> py_error + int" where
  "VRSReader_get_record_index_by_time self stream_id timestamp epsilon =
     (if stream_id \<notin> VRSReader_stream_ids self then Inl AssertionError
      else (case epsilon of
              None \<Rightarrow> Reader_get_record_index_by_time (VRSReader_reader self) stream_id timestamp
            | Some eps \<Rightarrow>
                if eps \<noteq> 0
                then Reader_get_nearest_record_index_by_time (VRSReader_reader self)
                       timestamp eps stream_id
                else Reader_get_record_index_by_time (VRSReader_reader self) stream_id timestamp))"

text \<open>
  The neighbour queries catch \<open>IndexError\<close> only (\<open>except IndexError\<close>), print it and return
  \<open>None\<close>; the read that follows is outside the \<open>try\<close>.
\<close>

definition VRSReader_read_prev_record ::
  "'r VRSReader \<Rightarrow> string \<Rightarrow> string \<Rightarrow> int \<Rightarrow> py_error + 'r option" where
  "VRSReader_read_prev_record self stream_id record_type index =
     (case Reader_get_prev_index (VRSReader_reader self) stream_id record_type index of
        Inl e \<Rightarrow> (if e = IndexError then Inr None else Inl e)
      | Inr prev_index \<Rightarrow>
          (case Reader_read_record (VRSReader_reader self) prev_index of
             Inl e \<Rightarrow> Inl e
           | Inr record \<Rightarrow> Inr (Some record)))"

definition VRSReader_read_next_record ::
  "'r VRSReader \<Rightarrow> string \<Rightarrow> string \<Rightarrow> int \<Rightarrow> py_error + 'r option" where
  "VRSReader_read_next_record self stream_id record_type index =
     (case Reader_get_next_index (VRSReader_reader self) stream_id record_type index of
        Inl e \<Rightarrow> (if e = IndexError then Inr None else Inl e)
      | Inr next_index \<Rightarrow>
          (case Reader_read_record (VRSReader_reader self) next_index of
             Inl e \<Rightarrow> Inl e
           | Inr record \<Rightarrow> Inr (Some record)))"

definition VRSReader_generate_filtered_indices :: "'r VRSReader \<Rightarrow> RecordFilter \<Rightarrow> int list" where
  "VRSReader_generate_filtered_indices self record_filter =
     Reader_regenerate_enabled_indices (VRSReader_reader self)
       (record_types record_filter) (stream_ids record_filter)
       (min_timestamp record_filter) (max_timestamp record_filter)"

subsection \<open>FilteredVRSReader\<close>

text \<open>
  \<open>__init__\<close>: the index list comes from the base reader, the bounds are \<open>0\<close> for an empty
  list and the timestamps at \<open>self._filtered_indices[0]\<close> and \<open>[-1]\<close> otherwise.
\<close>

definition FilteredVRSReader_init ::
  "'r VRSReader \<Rightarrow> RecordFilter \<Rightarrow> py_error + 'r FilteredVRSReader" where
  "FilteredVRSReader_init reader record_filter =
     (let indices = VRSReader_generate_filtered_indices reader record_filter
      in case (if length indices = 0 then Inr 0
               else case py_getitem indices 0 of
                      Inl e \<Rightarrow> Inl e
                    | Inr a \<Rightarrow> VRSReader_get_timestamp_for_index reader a) of
           Inl e \<Rightarrow> Inl e
         | Inr lo \<Rightarrow>
             (case (if length indices = 0 then Inr 0
                    else case py_getitem indices (- 1) of
                           Inl e \<Rightarrow> Inl e
                         | Inr a \<Rightarrow> VRSReader_get_timestamp_for_index reader a) of
                Inl e \<Rightarrow> Inl e
              | Inr hi \<Rightarrow>
                  Inr \<lparr>FilteredVRSReader_reader = reader,
                       FilteredVRSReader_record_filter = record_filter,
                       FilteredVRSReader_filtered_indices = indices,
                       FilteredVRSReader_min_timestamp = lo,
                       FilteredVRSReader_max_timestamp = hi\<rparr>))"

definition FilteredVRSReader_n_records :: "'r FilteredVRSReader \<Rightarrow> int" where
  "FilteredVRSReader_n_records self = int (length (FilteredVRSReader_filtered_indices self))"

definition FilteredVRSReader_stream_ids :: "'r FilteredVRSReader \<Rightarrow> string set" where
  "FilteredVRSReader_stream_ids self = stream_ids (FilteredVRSReader_record_filter self)"

definition FilteredVRSReader_record_types :: "'r FilteredVRSReader \<Rightarrow> string set" where
  "FilteredVRSReader_record_types self = record_types (FilteredVRSReader_record_filter self)"

text \<open>\<open>time_range\<close> is inherited from \<open>BaseVRSReader\<close>.\<close>

definition FilteredVRSReader_time_range :: "'r FilteredVRSReader \<Rightarrow> real" where
  "FilteredVRSReader_time_range self =
     FilteredVRSReader_max_timestamp self - FilteredVRSReader_min_timestamp self"

definition FilteredVRSReader_getitem :: "'r FilteredVRSReader \<Rightarrow> py_index \<Rightarrow> py_error + 'r item" where
  "FilteredVRSReader_getitem self i =
     index_or_slice_records (VRSReader_reader (FilteredVRSReader_reader self))
       (FilteredVRSReader_filtered_indices self) i"


definition FilteredVRSReader_set_image_conversion ::
  "'r FilteredVRSReader \<Rightarrow> 'c \<Rightarrow> py_error + unit" where
  "FilteredVRSReader_set_image_conversion self conversion = Inl NotImplementedError"

definition FilteredVRSReader_set_stream_image_conversion ::
  "'r FilteredVRSReader \<Rightarrow> string \<Rightarrow> 'c \<Rightarrow> py_error + unit" where
  "FilteredVRSReader_set_stream_image_conversion self stream_id conversion =
     Inl NotImplementedError"

definition FilteredVRSReader_set_stream_type_image_conversion ::
  "'r FilteredVRSReader \<Rightarrow> string \<Rightarrow> 'c \<Rightarrow> py_error + int" where
  "FilteredVRSReader_set_stream_type_image_conversion self recordable_type_id conversion =
     Inl NotImplementedError"

definition FilteredVRSReader_get_record_index_by_time ::
  "'r FilteredVRSReader \<Rightarrow> string \<Rightarrow> real \<Rightarrow> real option \<Rightarrow> py_error + int" where
  "FilteredVRSReader_get_record_index_by_time self stream_id timestamp epsilon =
     (if stream_id \<notin> FilteredVRSReader_stream_ids self then Inl AssertionError
      else (case VRSReader_get_record_index_by_time (FilteredVRSReader_reader self)
                   stream_id timestamp epsilon of
              Inl e \<Rightarrow> Inl e
            | Inr index \<Rightarrow>
                Inr (max (int (bisect (FilteredVRSReader_filtered_indices self) index) - 1) 0)))"

text \<open>
  \<open>read_prev_record\<close> indexes \<open>self._filtered_indices\<close> outside any \<open>try\<close>;
  \<open>read_next_record\<close> wraps the same lookup in \<open>try ... except IndexError\<close>.
\<close>

definition FilteredVRSReader_read_prev_record ::
  "'r FilteredVRSReader \<Rightarrow> string \<Rightarrow> string \<Rightarrow> int \<Rightarrow> py_error + 'r option" where
  "FilteredVRSReader_read_prev_record self stream_id record_type index =
     (case py_getitem (FilteredVRSReader_filtered_indices self) index of
        Inl e \<Rightarrow> Inl e
      | Inr index_in_all \<Rightarrow>
          VRSReader_read_prev_record (FilteredVRSReader_reader self)
            stream_id record_type index_in_all)"

definition FilteredVRSReader_read_next_record ::
  "'r FilteredVRSReader \<Rightarrow> string \<Rightarrow> string \<Rightarrow> int \<Rightarrow> py_error + 'r option" where
  "FilteredVRSReader_read_next_record self stream_id record_type index =
     (case py_getitem (FilteredVRSReader_filtered_indices self) index of
        Inl e \<Rightarrow> (if e = IndexError then Inr None else Inl e)
      | Inr index_in_all \<Rightarrow>
          VRSReader_read_next_record (FilteredVRSReader_reader self)
            stream_id record_type index_in_all)"

subsection \<open>SyncVRSReader.filtered_by_fields\<close>

text \<open>
  \<open>stream_ids\<close> and \<open>record_types\<close> are \<open>None\<close>, one string, or a collection of strings.
\<close>

datatype str_or_set = Str string | StrSet "string set"

text \<open>
  \<open>if x is None: x = default\<close>, \<open>elif isinstance(x, str): x = {x}\<close>.
\<close>

definition arg_or_default :: "string set \<Rightarrow> str_or_set option \<Rightarrow> string set" where
  "arg_or_default dflt arg =
     (case arg of
        None \<Rightarrow> dflt
      | Some (Str s) \<Rightarrow> {s}
      | Some (StrSet S) \<Rightarrow> S)"

definition SyncVRSReader_filtered_by_fields ::
  "(string \<Rightarrow> string \<Rightarrow> bool) \<Rightarrow> 'r VRSReader \<Rightarrow> str_or_set option \<Rightarrow> str_or_set option \<Rightarrow>
     real option \<Rightarrow> real option \<Rightarrow> py_error + 'r FilteredVRSReader" where
  "SyncVRSReader_filtered_by_fields bracket self stream_ids_arg record_types_arg
       min_timestamp_arg max_timestamp_arg =
     (let sids = arg_or_default (VRSReader_stream_ids self) stream_ids_arg;
          rts = arg_or_default (VRSReader_record_types self) record_types_arg;
          lo =(case min_timestamp_arg of
                  None \<Rightarrow> VRSReader_min_timestamp self
                | Some t \<Rightarrow> t);
          hi = (case max_timestamp_arg of
                  None \<Rightarrow> VRSReader_max_timestamp self
                | Some t \<Rightarrow> t);
          record_filter =
            \<lparr>record_types = filter_by_record_type (VRSReader_record_types self) rts,
             stream_ids = filter_by_stream_ids bracket (VRSReader_stream_ids self) sids,
             min_timestamp = lo,
             max_timestamp = hi\<rparr>
      in FilteredVRSReader_init self record_filter)"

text \<open>
  Glob matching as the specification words it, for comparison with \<open>fnmatch\<close>: the
  strings a pattern stands for, where \<open>*\<close> stands for any string, \<open>?\<close> for any single
  character and every other character for itself.
\<close>

fun glob_language :: "string \<Rightarrow> string set" where
  "glob_language [] = {[]}"
| "glob_language (p # ps) =
     (if p = CHR ''*'' then {u @ v | u v. v \<in> glob_language ps}
      else if p = CHR ''?'' then {c # v | c v. v \<in> glob_language ps}
      else {p # v | v. v \<in> glob_language ps})"

section \<open>The class hierarchy\<close>

text \<open>
  Attribute lookup on a reader object walks the method resolution order of its class and
  raises AttributeError when no class on the way defines the name. \<open>class_defines\<close> lists
  the methods and properties in each class body of base.py, reader.py and filter.py.
\<close>

datatype reader_class =
    Cls_BaseVRSReader
  | Cls_VRSReader
  | Cls_SyncVRSReader
  | Cls_AsyncVRSReader
  | Cls_FilteredVRSReader
  | Cls_SyncFilteredVRSReader
  | Cls_AsyncFilteredVRSReader

fun class_mro :: "reader_class \<Rightarrow> reader_class list" where
  "class_mro Cls_BaseVRSReader = [Cls_BaseVRSReader]"
| "class_mro Cls_VRSReader = [Cls_VRSReader, Cls_BaseVRSReader]"
| "class_mro Cls_SyncVRSReader = [Cls_SyncVRSReader, Cls_VRSReader, Cls_BaseVRSReader]"
| "class_mro Cls_AsyncVRSReader = [Cls_AsyncVRSReader, Cls_VRSReader, Cls_BaseVRSReader]"
| "class_mro Cls_FilteredVRSReader = [Cls_FilteredVRSReader, Cls_BaseVRSReader]"
| "class_mro Cls_SyncFilteredVRSReader =
     [Cls_SyncFilteredVRSReader, Cls_FilteredVRSReader, Cls_BaseVRSReader]"
| "class_mro Cls_AsyncFilteredVRSReader =
     [Cls_AsyncFilteredVRSReader, Cls_FilteredVRSReader, Cls_BaseVRSReader]"

definition base_defines :: "string list" where
  "base_defines =
     [''__getitem__'', ''__len__'', ''__repr__'', ''__str__'', ''file_tags'', ''stream_tags'',
      ''n_records'', ''record_types'', ''stream_ids'', ''min_timestamp'', ''max_timestamp'',
      ''time_range'', ''find_stream'', ''find_streams'', ''get_stream_info'',
      ''get_records_count'', ''get_timestamp_list'', ''get_timestamp_for_index'',
      ''set_image_conversion'', ''set_stream_image_conversion'',
      ''set_stream_type_image_conversion'', ''might_contain_images'', ''might_contain_audio'',
      ''get_estimated_frame_rate'', ''get_record_index_by_time'', ''read_record_by_time'',
      ''read_prev_record'', ''read_next_record'', ''_read_record'',
      ''_record_count_by_type_from_stream_id'', ''_generate_filtered_indices'']"

fun class_defines :: "reader_class \<Rightarrow> string list" where
  "class_defines Cls_BaseVRSReader = base_defines"
| "class_defines Cls_VRSReader =
     [''__init__'', ''_init_reader'', ''close''] @ base_defines @
     [''_get_reader_class'', ''_open_files'', ''filtered_by_fields'']"
| "class_defines Cls_SyncVRSReader =
     [''_get_reader_class'', ''_open_files'', ''__repr__'', ''filtered_by_fields'']"
| "class_defines Cls_AsyncVRSReader =
     [''_open_files'', ''_get_reader_class'', ''__repr__'', ''filtered_by_fields'',
      ''__aiter__'', ''__anext__'', ''__getitem__'', ''_async_read_record'']"
| "class_defines Cls_FilteredVRSReader =
     [''__init__'', ''__getitem__'', ''__len__'', ''__repr__'', ''__str__'', ''file_tags'',
      ''stream_tags'', ''n_records'', ''record_types'', ''stream_ids'', ''min_timestamp'',
      ''max_timestamp'', ''min_filter_timestamp'', ''max_filter_timestamp'', ''find_stream'',
      ''find_streams'', ''get_stream_info'', ''get_records_count'', ''get_timestamp_list'',
      ''get_timestamp_for_index'', ''set_image_conversion'', ''set_stream_image_conversion'',
      ''set_stream_type_image_conversion'', ''might_contain_images'', ''might_contain_audio'',
      ''get_estimated_frame_rate'', ''get_record_index_by_time'', ''read_record_by_time'',
      ''read_prev_record'', ''read_next_record'', ''_read_record'',
      ''_record_count_by_type_from_stream_id'', ''_generate_filtered_indices'']"
| "class_defines Cls_SyncFilteredVRSReader =
     [''__getitem__'', ''__repr__'', ''__str__'', ''_read_record'']"
| "class_defines Cls_AsyncFilteredVRSReader =
     [''__init__'', ''__aiter__'', ''__anext__'', ''__getitem__'', ''__repr__'', ''__str__'',
      ''_read_record'']"

definition py_getattr :: "reader_class \<Rightarrow> string \<Rightarrow> py_error + reader_class" where
  "py_getattr cls name =
     (case find (\<lambda>c. name \<in> set (class_defines c)) (class_mro cls) of
        None \<Rightarrow> Inl AttributeError
      | Some c \<Rightarrow> Inr c)"

definition is_filtered_class :: "reader_class \<Rightarrow> bool" where
  "is_filtered_class cls =
     (cls = Cls_FilteredVRSReader \<or> cls = Cls_SyncFilteredVRSReader \<or>
      cls = Cls_AsyncFilteredVRSReader)"

section \<open>A record store over a catalog\<close>

text \<open>
  Modelled from the spec: the record store (the pybind \<open>Reader\<close>), which is not among the
  Python sources. The catalog lists \<open>(stream_id, record_type, timestamp)\<close> per absolute
  index. Following sections 4.1, 4.2, 4.3, 4.5 and 6 of the specification: the timestamp
  and the raw read fail with IndexError outside \<open>[0, count)\<close>; the index subset holds
  exactly the indices whose type and stream id are requested and whose timestamp lies in
  the closed interval; the lower-bound search returns the smallest index on the stream
  whose timestamp is at least the target; the epsilon search returns the nearest index on
  the stream strictly inside the window, the smaller index on a tie; the neighbour
  searches return the largest matching index at or below, and the smallest at or above,
  the given one, and fail with IndexError when there is none.
\<close>

type_synonym catalog = "(string \<times> string \<times> real) list"

definition cat_stream :: "catalog \<Rightarrow> nat \<Rightarrow> string" where
  "cat_stream cat j = fst (cat ! j)"

definition cat_type :: "catalog \<Rightarrow> nat \<Rightarrow> string" where
  "cat_type cat j = fst (snd (cat ! j))"

definition cat_time :: "catalog \<Rightarrow> nat \<Rightarrow> real" where
  "cat_time cat j = snd (snd (cat ! j))"

definition catalog_Reader :: "catalog \<Rightarrow> (int \<times> string \<times> string \<times> real) Reader" where
  "catalog_Reader cat =
     \<lparr>Reader_get_available_records_size = int (length cat),
      Reader_get_available_record_types = set (map (\<lambda>r. fst (snd r)) cat),
      Reader_get_available_stream_ids = set (map fst cat),
      Reader_get_min_available_timestamp =
        (if cat = [] then 0 else Min (set (map (\<lambda>r. snd (snd r)) cat))),
      Reader_get_max_available_timestamp =
        (if cat = [] then 0 else Max (set (map (\<lambda>r. snd (snd r)) cat))),
      Reader_get_timestamp_for_index =
        (\<lambda>i. if 0 \<le> i \<and> i < int (length cat) then Inr (cat_time cat (nat i))
             else Inl IndexError),
      Reader_get_record_index_by_time =
        (\<lambda>stream_id t.
           case filter (\<lambda>j. cat_stream cat j = stream_id \<and> t \<le> cat_time cat j)
                  [0 ..< length cat] of
             [] \<Rightarrow> Inl ValueError
           | j # js \<Rightarrow> Inr (int j)),
      Reader_get_nearest_record_index_by_time =
        (\<lambda>t eps stream_id.
           case filter (\<lambda>j. cat_stream cat j = stream_id \<and> \<bar>cat_time cat j - t\<bar> < eps)
                  [0 ..< length cat] of
             [] \<Rightarrow> Inl (StoreError ''TimestampNotFoundError'')
           | j # js \<Rightarrow>
               Inr (int (fold (\<lambda>k best.
                                 if \<bar>cat_time cat k - t\<bar> < \<bar>cat_time cat best - t\<bar>
                                 then k else best) js j))),
      Reader_get_prev_index =
        (\<lambda>stream_id record_type index.
           case filter (\<lambda>j. cat_stream cat j = stream_id \<and> cat_type cat j = record_type
                              \<and> int j \<le> index)
                  [0 ..< length cat] of
             [] \<Rightarrow> Inl IndexError
           | j # js \<Rightarrow> Inr (int (last (j # js)))),
      Reader_get_next_index =
        (\<lambda>stream_id record_type index.
           case filter (\<lambda>j. cat_stream cat j = stream_id \<and> cat_type cat j = record_type
                              \<and> index \<le> int j)
                  [0 ..< length cat] of
             [] \<Rightarrow> Inl IndexError
           | j # js \<Rightarrow> Inr (int j)),
      Reader_read_record =
        (\<lambda>i. if 0 \<le> i \<and> i < int (length cat)
             then Inr (i, cat_stream cat (nat i), cat_type cat (nat i), cat_time cat (nat i))
             else Inl IndexError),
      Reader_regenerate_enabled_indices =
        (\<lambda>types ids lo hi.
           map int (filter (\<lambda>j. cat_type cat j \<in> types \<and> cat_stream cat j \<in> ids
                                  \<and> lo \<le> cat_time cat j \<and> cat_time cat j \<le> hi)
                      [0 ..< length cat]))\<rparr>"

text \<open>A small catalog: two streams, five records in timestamp order.\<close>

definition demo_catalog :: catalog where
  "demo_catalog =
     [(''100-1'', ''configuration'', 0),
      (''100-1'', ''data'', 1),
      (''100-2'', ''data'', 2),
      (''100-1'', ''data'', 3),
      (''100-1'', ''state'', 4)]"

definition demo_reader :: "(int \<times> string \<times> string \<times> real) VRSReader" where
  "demo_reader = VRSReader_init (catalog_Reader demo_catalog)"

text \<open>The view of \<open>demo_reader\<close> filtered to the data records of stream \<open>100-1\<close>.\<close>

definition demo_filtered :: "(int \<times> string \<times> string \<times> real) FilteredVRSReader" where
  "demo_filtered =
     \<lparr>FilteredVRSReader_reader = demo_reader,
      FilteredVRSReader_record_filter =
        \<lparr>record_types = {''data''}, stream_ids = {''100-1''},
         min_timestamp = 0, max_timestamp = 4\<rparr>,
      FilteredVRSReader_filtered_indices = [1, 3],
      FilteredVRSReader_min_timestamp = 1,
      FilteredVRSReader_max_timestamp = 3\<rparr>"

text \<open>Further filters over \<open>demo_reader\<close> and the views they give.\<close>

definition demo_filter :: RecordFilter where
  "demo_filter =
     \<lparr>record_types = {''data''}, stream_ids = {''100-1''},
      min_timestamp = 0, max_timestamp = 4\<rparr>"

definition no_type_filter :: RecordFilter where
  "no_type_filter =
     \<lparr>record_types = {}, stream_ids = {''100-1'', ''100-2''},
      min_timestamp = 0, max_timestamp = 4\<rparr>"

definition no_type_filtered :: "(int \<times> string \<times> string \<times> real) FilteredVRSReader" where
  "no_type_filtered =
     \<lparr>FilteredVRSReader_reader = demo_reader,
      FilteredVRSReader_record_filter = no_type_filter,
      FilteredVRSReader_filtered_indices = [],
      FilteredVRSReader_min_timestamp = 0,
      FilteredVRSReader_max_timestamp = 0\<rparr>"

definition all_filtered :: "(int \<times> string \<times> string \<times> real) FilteredVRSReader" where
  "all_filtered =
     \<lparr>FilteredVRSReader_reader = demo_reader,
      FilteredVRSReader_record_filter =
        \<lparr>record_types = {''configuration'', ''data'', ''state''},
         stream_ids = {''100-1'', ''100-2''},
         min_timestamp = 0, max_timestamp = 4\<rparr>,
      FilteredVRSReader_filtered_indices = [0, 1, 2, 3, 4],
      FilteredVRSReader_min_timestamp = 0,
      FilteredVRSReader_max_timestamp = 4\<rparr>"

section \<open>Binary search\<close>

lemma bisect_loop_bounds:
  "lo \<le> hi \<Longrightarrow> lo \<le> bisect_loop a x lo hi \<and> bisect_loop a x lo hi \<le> hi"
proof (induction a x lo hi rule: bisect_loop.induct)
  case (1 a x lo hi)
  show ?case
  proof (cases "lo < hi")
    case False
    then have "bisect_loop a x lo hi = lo" by (subst bisect_loop.simps) simp
    then show ?thesis using "1.prems" by simp
  next
    case True
    define mid where "mid = (lo + hi) div 2"
    have m: "lo \<le> mid" "mid < hi" using True by (simp_all add: mid_def)
    show ?thesis
    proof (cases "x < a ! mid")
      case lt: True
      have "bisect_loop a x lo hi = bisect_loop a x lo mid"
        using True lt by (simp add: bisect_loop.simps[of a x lo hi] mid_def Let_def)
      moreover have "lo \<le> bisect_loop a x lo mid \<and> bisect_loop a x lo mid \<le> mid"
        using "1.IH"(1)[of mid] True lt m by (simp add: mid_def)
      ultimately show ?thesis using m by simp
    next
      case ge: False
      have "bisect_loop a x lo hi = bisect_loop a x (mid + 1) hi"
        using True ge by (simp add: bisect_loop.simps[of a x lo hi] mid_def Let_def)
      moreover have "mid + 1 \<le> bisect_loop a x (mid + 1) hi \<and> bisect_loop a x (mid + 1) hi \<le> hi"
        using "1.IH"(2)[of mid] True ge m by (simp add: mid_def)
      ultimately show ?thesis using m by simp
    qed
  qed
qed

lemma bisect_loop_inv:
  assumes "lo \<le> hi" "hi \<le> length a" "sorted a"
    and "\<forall>i<lo. a ! i \<le> x"
    and "\<forall>i. hi \<le> i \<and> i < length a \<longrightarrow> x < a ! i"
  shows "(\<forall>i<bisect_loop a x lo hi. a ! i \<le> x) \<and>
         (\<forall>i. bisect_loop a x lo hi \<le> i \<and> i < length a \<longrightarrow> x < a ! i)"
  using assms
proof (induction a x lo hi rule: bisect_loop.induct)
  case (1 a x lo hi)
  show ?case
  proof (cases "lo < hi")
    case False
    then have "bisect_loop a x lo hi = lo" by (subst bisect_loop.simps) simp
    moreover from False "1.prems" have "hi = lo" by simp
    ultimately show ?thesis using "1.prems" by simp
  next
    case True
    define mid where "mid = (lo + hi) div 2"
    have m: "lo \<le> mid" "mid < hi" "mid < length a" using True "1.prems"(2) by (simp_all add: mid_def)
    show ?thesis
    proof (cases "x < a ! mid")
      case lt: True
      have up: "\<forall>i. mid \<le> i \<and> i < length a \<longrightarrow> x < a ! i"
      proof (intro allI impI)
        fix i assume "mid \<le> i \<and> i < length a"
        then have "a ! mid \<le> a ! i" using \<open>sorted a\<close> by (simp add: sorted_nth_mono)
        with lt show "x < a ! i" by simp
      qed
      have eq: "bisect_loop a x lo hi = bisect_loop a x lo mid"
        using True lt by (simp add: bisect_loop.simps[of a x lo hi] mid_def Let_def)
      have "(\<forall>i<bisect_loop a x lo mid. a ! i \<le> x) \<and>
         (\<forall>i. bisect_loop a x lo mid \<le> i \<and> i < length a \<longrightarrow> x < a ! i)"
        using "1.IH"(1)[of mid] True lt m "1.prems" up by (simp add: mid_def)
      with eq show ?thesis by simp
    next
      case ge: False
      have low: "\<forall>i<mid + 1. a ! i \<le> x"
      proof (intro allI impI)
        fix i assume "i < mid + 1"
        then have "a ! i \<le> a ! mid" using \<open>sorted a\<close> m by (simp add: sorted_nth_mono)
        with ge show "a ! i \<le> x" by simp
      qed
      have eq: "bisect_loop a x lo hi = bisect_loop a x (mid + 1) hi"
        using True ge by (simp add: bisect_loop.simps[of a x lo hi] mid_def Let_def)
      have "(\<forall>i<bisect_loop a x (mid + 1) hi. a ! i \<le> x) \<and>
         (\<forall>i. bisect_loop a x (mid + 1) hi \<le> i \<and> i < length a \<longrightarrow> x < a ! i)"
        using "1.IH"(2)[of mid] True ge m "1.prems" low by (simp add: mid_def)
      with eq show ?thesis by simp
    qed
  qed
qed

lemma bisect_sorted:
  assumes "sorted a"
  shows "bisect a x \<le> length a"
    and "\<forall>i<bisect a x. a ! i \<le> x"
    and "\<forall>i. bisect a x \<le> i \<and> i < length a \<longrightarrow> x < a ! i"
  using bisect_loop_inv[of 0 "length a" a x] bisect_loop_bounds[of 0 "length a" a x] assms
  by (simp_all add: bisect_def)

section \<open>Time search on a filtered view\<close>

text \<open>
  C1. On a filtered view whose index list \<open>L\<close> is sorted, for a stream id of the filter's
  resolved set and a full-catalog search result \<open>r\<close>, \<open>get_record_index_by_time\<close> returns
  \<open>max (bisect L r - 1) 0\<close>: the rightmost position of \<open>L\<close> whose absolute index is at
  most \<open>r\<close> when there is one, and \<open>0\<close> when every element of \<open>L\<close> exceeds \<open>r\<close>.
\<close>

theorem filtered_index_by_time_remap:
  assumes srt: "sorted (FilteredVRSReader_filtered_indices self)"
    and sid: "stream_id \<in> FilteredVRSReader_stream_ids self"
    and base: "VRSReader_get_record_index_by_time (FilteredVRSReader_reader self)
                 stream_id timestamp epsilon = Inr r"
  shows "\<exists>q. FilteredVRSReader_get_record_index_by_time self stream_id timestamp epsilon
               = Inr (int q)
           \<and> int q = max (int (bisect (FilteredVRSReader_filtered_indices self) r) - 1) 0
           \<and> ((\<exists>p < length (FilteredVRSReader_filtered_indices self).
                   FilteredVRSReader_filtered_indices self ! p \<le> r)
                \<longrightarrow> q < length (FilteredVRSReader_filtered_indices self)
                    \<and> FilteredVRSReader_filtered_indices self ! q \<le> r
                    \<and> (\<forall>j. q < j \<and> j < length (FilteredVRSReader_filtered_indices self)
                             \<longrightarrow> r < FilteredVRSReader_filtered_indices self ! j))
           \<and> ((\<forall>p < length (FilteredVRSReader_filtered_indices self).
                   r < FilteredVRSReader_filtered_indices self ! p)
                \<longrightarrow> q = 0)"
proof -
  let ?L = "FilteredVRSReader_filtered_indices self"
  let ?b = "bisect ?L r"
  define q where "q = ?b - 1"
  have res: "FilteredVRSReader_get_record_index_by_time self stream_id timestamp epsilon
               = Inr (max (int ?b - 1) 0)"
    using sid base by (simp add: FilteredVRSReader_get_record_index_by_time_def)
  have qmax: "int q = max (int ?b - 1) 0"
    by (simp add: q_def max_def)
  note b = bisect_sorted[OF srt, of r]
  have some: "q < length ?L \<and> ?L ! q \<le> r \<and> (\<forall>j. q < j \<and> j < length ?L \<longrightarrow> r < ?L ! j)"
    if ex: "\<exists>p < length ?L. ?L ! p \<le> r"
  proof -
    from ex obtain p where p: "p < length ?L" "?L ! p \<le> r" by blast
    have "0 < ?b"
    proof (rule ccontr)
      assume "\<not> 0 < ?b"
      then have "?b \<le> p" by simp
      with b(3) p(1) have "r < ?L ! p" by blast
      with p(2) show False by simp
    qed
    then have "q < ?b" "Suc q = ?b" by (simp_all add: q_def)
    with b show ?thesis by (metis Suc_leI less_le_trans)
  qed
  have none: "q = 0" if all: "\<forall>p < length ?L. r < ?L ! p"
  proof -
    have "?b = 0"
    proof (rule ccontr)
      assume "?b \<noteq> 0"
      then have z: "0 < ?b" by simp
      with b(2) have "?L ! 0 \<le> r" by blast
      moreover from z b(1) have "0 < length ?L" by linarith
      ultimately show False using all by force
    qed
    then show ?thesis by (simp add: q_def)
  qed
  from res qmax some none show ?thesis by (metis (no_types, lifting))
qed

theorem filtered_index_by_time_remap_witness:
  "sorted (FilteredVRSReader_filtered_indices demo_filtered)
   \<and> ''100-1'' \<in> FilteredVRSReader_stream_ids demo_filtered
   \<and> VRSReader_get_record_index_by_time (FilteredVRSReader_reader demo_filtered)
        ''100-1'' 2.5 None = Inr 3
   \<and> FilteredVRSReader_get_record_index_by_time demo_filtered ''100-1'' 2.5 None = Inr 1"
proof -
  have h1: "sorted (FilteredVRSReader_filtered_indices demo_filtered)"
    by (simp add: demo_filtered_def)
  have h2: "''100-1'' \<in> FilteredVRSReader_stream_ids demo_filtered"
    by (simp add: demo_filtered_def FilteredVRSReader_stream_ids_def)
  have h3: "VRSReader_get_record_index_by_time (FilteredVRSReader_reader demo_filtered)
              ''100-1'' 2.5 None = Inr 3"
    by (simp add: demo_filtered_def demo_reader_def VRSReader_init_def catalog_Reader_def
        demo_catalog_def VRSReader_get_record_index_by_time_def cat_stream_def cat_time_def
        upt_rec)
  from filtered_index_by_time_remap[OF h1 h2 h3]
  obtain q where q: "FilteredVRSReader_get_record_index_by_time demo_filtered ''100-1'' 2.5 None
                       = Inr (int q)"
    and qm: "int q = max (int (bisect (FilteredVRSReader_filtered_indices demo_filtered) 3) - 1) 0"
    by blast
  have "bisect (FilteredVRSReader_filtered_indices demo_filtered) 3 = 2"
    by (simp add: demo_filtered_def bisect_def bisect_loop.simps)
  with qm have "int q = 1" by simp
  with q h1 h2 h3 show ?thesis by simp
qed

section \<open>Neighbour queries\<close>

text \<open>
  C2. On the filtered view \<open>demo_filtered\<close>, which has two records, the neighbour queries
  at the boundary index \<open>2\<close> differ: \<open>read_next_record\<close> returns \<open>None\<close>, whereas
  \<open>read_prev_record\<close> raises IndexError, its list lookup standing outside any \<open>try\<close>.
\<close>

theorem neighbour_boundary:
  "FilteredVRSReader_n_records demo_filtered = 2
   \<and> FilteredVRSReader_read_prev_record demo_filtered ''100-1'' ''data'' 2 = Inl IndexError
   \<and> FilteredVRSReader_read_next_record demo_filtered ''100-1'' ''data'' 2 = Inr None"
  by (simp add: demo_filtered_def FilteredVRSReader_n_records_def
      FilteredVRSReader_read_prev_record_def FilteredVRSReader_read_next_record_def
      py_getitem_def)

section \<open>Filter construction\<close>

lemma filter_set_on_condition_iff:
  "a \<in> filter_set_on_condition s items cond_func \<longleftrightarrow> a \<in> s \<and> (\<exists>b \<in> items. cond_func a b)"
  by (simp add: filter_set_on_condition_def)

lemma filter_by_record_type_Int:
  "filter_by_record_type available requested = available \<inter> requested"
  by (auto simp: filter_by_record_type_def filter_set_on_condition_iff)

lemma fnmatch_self: "CHR ''['' \<notin> set a \<Longrightarrow> fnmatch bracket a a"
  by (induction a) auto

lemma fnmatch_glob_language:
  "CHR ''['' \<notin> set pat \<Longrightarrow> fnmatch bracket name pat \<longleftrightarrow> name \<in> glob_language pat"
proof (induction bracket name pat rule: fnmatch.induct)
  case (1 bracket)
  show ?case by simp
next
  case (2 bracket c cs)
  show ?case by simp
next
  case (3 bracket name p ps)
  from "3.prems" have nb: "p \<noteq> CHR ''[''" "CHR ''['' \<notin> set ps" by auto
  show ?case
  proof (cases "p = CHR ''*''")
    case star: True
    have tail: "fnmatch bracket name ps \<longleftrightarrow> name \<in> glob_language ps"
      using "3.IH"(1)[OF star] nb by simp
    show ?thesis
    proof (cases name)
      case Nil
      with star tail show ?thesis by auto
    next
      case (Cons c cs)
      have rest: "fnmatch bracket cs (p # ps) \<longleftrightarrow> cs \<in> glob_language (p # ps)"
        using "3.IH"(2)[OF star Cons] "3.prems" by simp
      have "name \<in> glob_language (p # ps) \<longleftrightarrow>
              name \<in> glob_language ps \<or> cs \<in> glob_language (p # ps)"
      proof
        assume "name \<in> glob_language (p # ps)"
        then obtain u v where uv: "name = u @ v" "v \<in> glob_language ps"
          using star by auto
        show "name \<in> glob_language ps \<or> cs \<in> glob_language (p # ps)"
        proof (cases u)
          case Nil
          with uv show ?thesis by simp
        next
          case (Cons d ds)
          with uv \<open>name = c # cs\<close> have "cs = ds @ v" by simp
          with uv star show ?thesis by auto
        qed
      next
        assume "name \<in> glob_language ps \<or> cs \<in> glob_language (p # ps)"
        then show "name \<in> glob_language (p # ps)"
        proof
          assume "name \<in> glob_language ps"
          then have "name = [] @ name \<and> name \<in> glob_language ps" by simp
          then show ?thesis using star by (simp del: append_Nil) blast
        next
          assume "cs \<in> glob_language (p # ps)"
          then obtain u v where "cs = u @ v" "v \<in> glob_language ps"
            using star by auto
          then have "name = (c # u) @ v \<and> v \<in> glob_language ps"
            using Cons by simp
          then show ?thesis using star by (simp del: append_Cons) blast
        qed
      qed
      with star tail rest Cons show ?thesis by simp
    qed
  next
    case nostar: False
    show ?thesis
    proof (cases "p = CHR ''?''")
      case q: True
      show ?thesis
      proof (cases name)
        case Nil
        with nostar q show ?thesis by simp
      next
        case (Cons c cs)
        have "fnmatch bracket cs ps \<longleftrightarrow> cs \<in> glob_language ps"
          using "3.IH"(3)[OF nostar q Cons] nb by simp
        with nostar q Cons show ?thesis by simp
      qed
    next
      case noq: False
      show ?thesis
      proof (cases name)
        case Nil
        with nostar noq nb show ?thesis by simp
      next
        case (Cons c cs)
        have "fnmatch bracket cs ps \<longleftrightarrow> cs \<in> glob_language ps"
          using "3.IH"(4)[OF nostar noq nb(1) Cons] nb by simp
        with nostar noq nb Cons show ?thesis by auto
      qed
    qed
  qed
qed

lemma filter_by_stream_ids_self:
  assumes "\<forall>a \<in> available. CHR ''['' \<notin> set a"
  shows "filter_by_stream_ids bracket available available = available"
proof -
  have "\<exists>b \<in> available. fnmatch bracket a b" if "a \<in> available" for a
    using that assms fnmatch_self[of a bracket] by blast
  then show ?thesis
    by (auto simp: filter_by_stream_ids_def filter_set_on_condition_iff)
qed

lemma py_getitem_first: "xs \<noteq> [] \<Longrightarrow> py_getitem xs 0 = Inr (hd xs)"
  by (cases xs) (simp_all add: py_getitem_def)

lemma py_getitem_last: "xs \<noteq> [] \<Longrightarrow> py_getitem xs (- 1) = Inr (last xs)"
proof -
  assume ne: "xs \<noteq> []"
  then have "1 \<le> int (length xs)" by (cases xs) simp_all
  with ne show ?thesis
    by (simp add: py_getitem_def last_conv_nth nat_diff_distrib')
qed

lemma FilteredVRSReader_init_fields:
  assumes "FilteredVRSReader_init reader record_filter = Inr fv"
  shows "FilteredVRSReader_record_filter fv = record_filter"
    and "FilteredVRSReader_reader fv = reader"
    and "FilteredVRSReader_filtered_indices fv
           = VRSReader_generate_filtered_indices reader record_filter"
  using assms
  by (auto simp: FilteredVRSReader_init_def Let_def split: sum.splits if_splits)

lemma filtered_by_fields_record_filter:
  assumes "SyncVRSReader_filtered_by_fields bracket reader sa ra lo hi = Inr fv"
  shows "FilteredVRSReader_record_filter fv =
     \<lparr>record_types = filter_by_record_type (VRSReader_record_types reader)
                        (arg_or_default (VRSReader_record_types reader) ra),
      stream_ids = filter_by_stream_ids bracket (VRSReader_stream_ids reader)
                     (arg_or_default (VRSReader_stream_ids reader) sa),
      min_timestamp = (case lo of None \<Rightarrow> VRSReader_min_timestamp reader | Some t \<Rightarrow> t),
      max_timestamp = (case hi of None \<Rightarrow> VRSReader_max_timestamp reader | Some t \<Rightarrow> t)\<rparr>"
  using assms FilteredVRSReader_init_fields(1)
  by (simp add: SyncVRSReader_filtered_by_fields_def Let_def)

lemma catalog_select_all:
  fixes cat :: catalog
  assumes ne: "cat \<noteq> []"
  shows "Reader_regenerate_enabled_indices (catalog_Reader cat)
           (Reader_get_available_record_types (catalog_Reader cat))
           (Reader_get_available_stream_ids (catalog_Reader cat))
           (Reader_get_min_available_timestamp (catalog_Reader cat))
           (Reader_get_max_available_timestamp (catalog_Reader cat))
         = map int [0 ..< length cat]"
proof -
  let ?T = "set (map (\<lambda>r. snd (snd r)) cat)"
  have keep: "cat_type cat j \<in> set (map (\<lambda>r. fst (snd r)) cat)
              \<and> cat_stream cat j \<in> set (map fst cat)
              \<and> Min ?T \<le> cat_time cat j \<and> cat_time cat j \<le> Max ?T"
    if "j \<in> set [0 ..< length cat]" for j
  proof -
    from that have j: "j < length cat" by simp
    then have m: "cat ! j \<in> set cat" by simp
    have "cat_time cat j \<in> ?T"
      using m by (simp add: cat_time_def)
    then have "Min ?T \<le> cat_time cat j" "cat_time cat j \<le> Max ?T"
      by simp_all
    moreover have "cat_type cat j \<in> set (map (\<lambda>r. fst (snd r)) cat)"
      using m by (simp add: cat_type_def)
    moreover have "cat_stream cat j \<in> set (map fst cat)"
      using m by (simp add: cat_stream_def)
    ultimately show ?thesis by simp
  qed
  have "filter (\<lambda>j. cat_type cat j \<in> set (map (\<lambda>r. fst (snd r)) cat)
              \<and> cat_stream cat j \<in> set (map fst cat)
              \<and> Min ?T \<le> cat_time cat j \<and> cat_time cat j \<le> Max ?T) [0 ..< length cat]
        = [0 ..< length cat]"
    by (rule filter_True) (use keep in blast)
  then show ?thesis using ne by (simp add: catalog_Reader_def)
qed

lemma catalog_select_all_empty:
  "Reader_regenerate_enabled_indices (catalog_Reader []) types ids lo hi = []"
  by (simp add: catalog_Reader_def)

lemma demo_reader_fields:
  "VRSReader_stream_ids demo_reader = {''100-1'', ''100-2''}"
  "VRSReader_record_types demo_reader = {''configuration'', ''data'', ''state''}"
  "VRSReader_min_timestamp demo_reader = 0"
  "VRSReader_max_timestamp demo_reader = 4"
  "VRSReader_n_records demo_reader = 5"
  by (auto simp: demo_reader_def VRSReader_init_def catalog_Reader_def demo_catalog_def)

lemma filtered_by_fields_wildcard_example: "SyncVRSReader_filtered_by_fields (\<lambda>_ _. False) demo_reader
             (Some (Str ''100-?'')) (Some (Str ''*'')) None None = Inr no_type_filtered"
proof -
  have a: "filter_by_stream_ids (\<lambda>_ _. False) {''100-1'', ''100-2''} {''100-?''} = {''100-1'', ''100-2''}"
    by (auto simp: filter_by_stream_ids_def filter_set_on_condition_iff)
  have b: "filter_by_record_type {''configuration'', ''data'', ''state''} {''*''} = {}"
    by (auto simp: filter_by_record_type_Int)
  have c: "VRSReader_generate_filtered_indices demo_reader no_type_filter = []"
    by (simp add: VRSReader_generate_filtered_indices_def no_type_filter_def demo_reader_def
        VRSReader_init_def catalog_Reader_def)
  show ?thesis
    using c by (simp add: SyncVRSReader_filtered_by_fields_def demo_reader_fields arg_or_default_def a b
        FilteredVRSReader_init_def no_type_filtered_def no_type_filter_def[symmetric])
qed

lemma filtered_by_fields_all_default_example: "SyncVRSReader_filtered_by_fields (\<lambda>_ _. False) demo_reader
             None None None None = Inr all_filtered"
proof -
  have a: "filter_by_stream_ids (\<lambda>_ _. False) {''100-1'', ''100-2''} {''100-1'', ''100-2''}
             = {''100-1'', ''100-2''}"
    by (rule filter_by_stream_ids_self) simp
  have b: "filter_by_record_type {''configuration'', ''data'', ''state''}
             {''configuration'', ''data'', ''state''} = {''configuration'', ''data'', ''state''}"
    by (simp add: filter_by_record_type_Int)
  have c: "VRSReader_generate_filtered_indices demo_reader
       \<lparr>record_types = {''configuration'', ''data'', ''state''},
         stream_ids = {''100-1'', ''100-2''},
         min_timestamp = 0, max_timestamp = 4\<rparr> = [0, 1, 2, 3, 4]"
    by (simp add: VRSReader_generate_filtered_indices_def demo_reader_def
        VRSReader_init_def catalog_Reader_def demo_catalog_def cat_type_def cat_stream_def
        cat_time_def upt_rec)
  have d: "VRSReader_get_timestamp_for_index demo_reader 0 = Inr 0"
     "VRSReader_get_timestamp_for_index demo_reader 4 = Inr 4"
    by (simp_all add: VRSReader_get_timestamp_for_index_def demo_reader_def
        VRSReader_init_def catalog_Reader_def demo_catalog_def cat_time_def)
  show ?thesis
    using c d by (simp add: SyncVRSReader_filtered_by_fields_def demo_reader_fields arg_or_default_def a b
        FilteredVRSReader_init_def all_filtered_def py_getitem_def)
qed

lemma filtered_by_fields_pattern_set_example:
  "SyncVRSReader_filtered_by_fields (\<lambda>_ _. False) demo_reader
     (Some (StrSet {''*-1'', ''200-?''})) (Some (StrSet {''data'', ''st*''})) None None
   = Inr demo_filtered"
proof -
  have m: "fnmatch (\<lambda>_ _. False) ''100-1'' ''*-1''"
    "\<not> fnmatch (\<lambda>_ _. False) ''100-2'' ''*-1''"
    "\<not> fnmatch (\<lambda>_ _. False) ''100-1'' ''200-?''"
    "\<not> fnmatch (\<lambda>_ _. False) ''100-2'' ''200-?''"
    by simp_all
  have a: "filter_by_stream_ids (\<lambda>_ _. False) {''100-1'', ''100-2''} {''*-1'', ''200-?''}
             = {''100-1''}"
    using m
    by (auto simp only: filter_by_stream_ids_def filter_set_on_condition_iff insert_iff empty_iff)
  have b: "filter_by_record_type {''configuration'', ''data'', ''state''} {''data'', ''st*''}
             = {''data''}"
    by (auto simp: filter_by_record_type_Int)
  have c: "VRSReader_generate_filtered_indices demo_reader demo_filter = [1, 3]"
    by (simp add: VRSReader_generate_filtered_indices_def demo_filter_def demo_reader_def
        VRSReader_init_def catalog_Reader_def demo_catalog_def cat_type_def cat_stream_def
        cat_time_def upt_rec)
  have d: "VRSReader_get_timestamp_for_index demo_reader 1 = Inr 1"
     "VRSReader_get_timestamp_for_index demo_reader 3 = Inr 3"
    by (simp_all add: VRSReader_get_timestamp_for_index_def demo_reader_def
        VRSReader_init_def catalog_Reader_def demo_catalog_def cat_time_def)
  show ?thesis
    using c d by (simp add: SyncVRSReader_filtered_by_fields_def demo_reader_fields
        arg_or_default_def a b FilteredVRSReader_init_def demo_filtered_def py_getitem_def
        demo_filter_def[symmetric])
qed

text \<open>
  C5. An omitted dimension of \<open>filtered_by_fields\<close> restricts nothing: the record filter
  holds all available stream ids, all available record types and the reader's own minimum
  and maximum timestamp. With every dimension omitted the store is asked for the indices
  of exactly these criteria, and over a catalog store that is every record. Stream ids are
  of the form \<open><recordable_type_id>-<instance_id>\<close>; the statement asks only that none
  contains an opening bracket.
\<close>

theorem filtered_by_fields_defaults:
  assumes ids: "\<forall>a \<in> VRSReader_stream_ids reader. CHR ''['' \<notin> set a"
    and fv: "SyncVRSReader_filtered_by_fields bracket reader sa ra lo hi = Inr fv"
  shows "(sa = None \<longrightarrow>
            stream_ids (FilteredVRSReader_record_filter fv) = VRSReader_stream_ids reader)
       \<and> (ra = None \<longrightarrow>
            record_types (FilteredVRSReader_record_filter fv) = VRSReader_record_types reader)
       \<and> (lo = None \<longrightarrow>
            min_timestamp (FilteredVRSReader_record_filter fv) = VRSReader_min_timestamp reader)
       \<and> (hi = None \<longrightarrow>
            max_timestamp (FilteredVRSReader_record_filter fv) = VRSReader_max_timestamp reader)
       \<and> (sa = None \<and> ra = None \<and> lo = None \<and> hi = None \<longrightarrow>
            FilteredVRSReader_filtered_indices fv
              = Reader_regenerate_enabled_indices (VRSReader_reader reader)
                  (VRSReader_record_types reader) (VRSReader_stream_ids reader)
                  (VRSReader_min_timestamp reader) (VRSReader_max_timestamp reader))
       \<and> (\<forall>cat. reader = VRSReader_init (catalog_Reader cat)
              \<and> sa = None \<and> ra = None \<and> lo = None \<and> hi = None \<longrightarrow>
            FilteredVRSReader_filtered_indices fv = map int [0 ..< length cat])"
proof -
  note rf = filtered_by_fields_record_filter[OF fv]
  have init: "FilteredVRSReader_init reader (FilteredVRSReader_record_filter fv) = Inr fv"
    using fv rf by (simp add: SyncVRSReader_filtered_by_fields_def Let_def)
  have idx: "FilteredVRSReader_filtered_indices fv
      = VRSReader_generate_filtered_indices reader (FilteredVRSReader_record_filter fv)"
    using FilteredVRSReader_init_fields(3)[OF init] .
  have a: "sa = None \<longrightarrow>
            stream_ids (FilteredVRSReader_record_filter fv) = VRSReader_stream_ids reader"
    using ids by (simp add: rf arg_or_default_def filter_by_stream_ids_self)
  have b: "ra = None \<longrightarrow>
            record_types (FilteredVRSReader_record_filter fv) = VRSReader_record_types reader"
    by (simp add: rf arg_or_default_def filter_by_record_type_Int)
  have c: "lo = None \<longrightarrow>
            min_timestamp (FilteredVRSReader_record_filter fv) = VRSReader_min_timestamp reader"
    by (simp add: rf)
  have d: "hi = None \<longrightarrow>
            max_timestamp (FilteredVRSReader_record_filter fv) = VRSReader_max_timestamp reader"
    by (simp add: rf)
  have e: "FilteredVRSReader_filtered_indices fv
              = Reader_regenerate_enabled_indices (VRSReader_reader reader)
                  (VRSReader_record_types reader) (VRSReader_stream_ids reader)
                  (VRSReader_min_timestamp reader) (VRSReader_max_timestamp reader)"
    if "sa = None \<and> ra = None \<and> lo = None \<and> hi = None"
    using that a b c d idx by (simp add: VRSReader_generate_filtered_indices_def)
  have f: "FilteredVRSReader_filtered_indices fv = map int [0 ..< length cat]"
    if h: "reader = VRSReader_init (catalog_Reader cat)
              \<and> sa = None \<and> ra = None \<and> lo = None \<and> hi = None" for cat
  proof (cases "cat = []")
    case True
    with e h show ?thesis by (simp add: VRSReader_init_def catalog_select_all_empty)
  next
    case False
    with e h catalog_select_all[OF False] show ?thesis by (simp add: VRSReader_init_def)
  qed
  from a b c d e f show ?thesis by blast
qed

theorem filtered_by_fields_defaults_witness:
  "CHR ''['' \<notin> set ''100-1'' \<and> CHR ''['' \<notin> set ''100-2''
   \<and> VRSReader_stream_ids demo_reader = {''100-1'', ''100-2''}
   \<and> SyncVRSReader_filtered_by_fields (\<lambda>_ _. False) demo_reader None None None None
        = Inr all_filtered
   \<and> stream_ids (FilteredVRSReader_record_filter all_filtered) = VRSReader_stream_ids demo_reader
   \<and> record_types (FilteredVRSReader_record_filter all_filtered)
        = VRSReader_record_types demo_reader
   \<and> min_timestamp (FilteredVRSReader_record_filter all_filtered)
        = VRSReader_min_timestamp demo_reader
   \<and> max_timestamp (FilteredVRSReader_record_filter all_filtered)
        = VRSReader_max_timestamp demo_reader
   \<and> FilteredVRSReader_filtered_indices all_filtered = map int [0 ..< length demo_catalog]"
proof -
  have ids: "\<forall>a \<in> VRSReader_stream_ids demo_reader. CHR ''['' \<notin> set a"
    by (simp add: demo_reader_fields)
  note h = filtered_by_fields_all_default_example
  note t = filtered_by_fields_defaults[OF ids h]
  have d: "demo_reader = VRSReader_init (catalog_Reader demo_catalog)"
    by (simp add: demo_reader_def)
  from t d have "FilteredVRSReader_filtered_indices all_filtered
                   = map int [0 ..< length demo_catalog]"
    by blast
  moreover have "CHR ''['' \<notin> set ''100-1'' \<and> CHR ''['' \<notin> set ''100-2''"
    by simp
  moreover note demo_reader_fields(1)
  ultimately show ?thesis using t h by blast
qed

text \<open>
  C6. The stream-id dimension of the record filter built by \<open>filtered_by_fields\<close> is
  resolved when the filter is built and holds concrete available stream ids: for a
  requested set \<open>S\<close> of patterns, the available ids that match some pattern of \<open>S\<close> under
  \<open>fnmatch\<close>; for a single string, those that match it; for an omitted argument, those
  that match an available id taken as a pattern. On bracket-free patterns \<open>fnmatch\<close> is glob
  matching with \<open>*\<close> and \<open>?\<close>. The record-type dimension is the intersection of the
  available types with the requested set \<open>T\<close> (the available types equal to a single
  requested string, all of them when omitted): equality of strings, no wildcards.
\<close>

theorem record_filter_resolution:
  assumes "SyncVRSReader_filtered_by_fields bracket reader sa ra lo hi = Inr fv"
  shows "(sa = Some (StrSet S) \<longrightarrow>
            stream_ids (FilteredVRSReader_record_filter fv)
              = {a \<in> VRSReader_stream_ids reader. \<exists>p \<in> S. fnmatch bracket a p})
       \<and> (sa = Some (Str s) \<longrightarrow>
            stream_ids (FilteredVRSReader_record_filter fv)
              = {a \<in> VRSReader_stream_ids reader. fnmatch bracket a s})
       \<and> (sa = None \<longrightarrow>
            stream_ids (FilteredVRSReader_record_filter fv)
              = {a \<in> VRSReader_stream_ids reader.
                   \<exists>p \<in> VRSReader_stream_ids reader. fnmatch bracket a p})
       \<and> (sa = Some (StrSet S) \<and> (\<forall>p \<in> S. CHR ''['' \<notin> set p) \<longrightarrow>
            stream_ids (FilteredVRSReader_record_filter fv)
              = {a \<in> VRSReader_stream_ids reader. \<exists>p \<in> S. a \<in> glob_language p})
       \<and> (sa = Some (Str s) \<and> CHR ''['' \<notin> set s \<longrightarrow>
            stream_ids (FilteredVRSReader_record_filter fv)
              = {a \<in> VRSReader_stream_ids reader. a \<in> glob_language s})
       \<and> stream_ids (FilteredVRSReader_record_filter fv) \<subseteq> VRSReader_stream_ids reader
       \<and> (ra = Some (StrSet T) \<longrightarrow>
            record_types (FilteredVRSReader_record_filter fv)
              = VRSReader_record_types reader \<inter> T)
       \<and> (ra = Some (Str t) \<longrightarrow>
            record_types (FilteredVRSReader_record_filter fv)
              = {a \<in> VRSReader_record_types reader. a = t})
       \<and> (ra = None \<longrightarrow>
            record_types (FilteredVRSReader_record_filter fv)
              = VRSReader_record_types reader)"
proof -
  note rf = filtered_by_fields_record_filter[OF assms]
  let ?A = "VRSReader_stream_ids reader"
  have s: "stream_ids (FilteredVRSReader_record_filter fv)
             = {a \<in> ?A. \<exists>p \<in> arg_or_default ?A sa. fnmatch bracket a p}"
    by (auto simp: rf filter_by_stream_ids_def filter_set_on_condition_iff)
  have t: "record_types (FilteredVRSReader_record_filter fv)
             = VRSReader_record_types reader
                 \<inter> arg_or_default (VRSReader_record_types reader) ra"
    by (simp add: rf filter_by_record_type_Int)
  have glob: "{a \<in> ?A. \<exists>p \<in> P. fnmatch bracket a p} = {a \<in> ?A. \<exists>p \<in> P. a \<in> glob_language p}"
    if "\<forall>p \<in> P. CHR ''['' \<notin> set p" for P
    using that by (auto simp: fnmatch_glob_language)
  have 1: "sa = Some (StrSet S) \<longrightarrow>
            stream_ids (FilteredVRSReader_record_filter fv)
              = {a \<in> ?A. \<exists>p \<in> S. fnmatch bracket a p}"
    by (simp add: s arg_or_default_def)
  have 2: "sa = Some (Str s) \<longrightarrow>
            stream_ids (FilteredVRSReader_record_filter fv)
              = {a \<in> ?A. fnmatch bracket a s}"
    by (simp add: s arg_or_default_def)
  have 3: "sa = None \<longrightarrow>
            stream_ids (FilteredVRSReader_record_filter fv)
              = {a \<in> ?A. \<exists>p \<in> ?A. fnmatch bracket a p}"
    by (simp add: s arg_or_default_def)
  have 4: "sa = Some (StrSet S) \<and> (\<forall>p \<in> S. CHR ''['' \<notin> set p) \<longrightarrow>
            stream_ids (FilteredVRSReader_record_filter fv)
              = {a \<in> ?A. \<exists>p \<in> S. a \<in> glob_language p}"
    using 1 glob[of S] by simp
  have 5: "sa = Some (Str s) \<and> CHR ''['' \<notin> set s \<longrightarrow>
            stream_ids (FilteredVRSReader_record_filter fv)
              = {a \<in> ?A. a \<in> glob_language s}"
    using 2 glob[of "{s}"] by simp
  have 6: "stream_ids (FilteredVRSReader_record_filter fv) \<subseteq> ?A"
    unfolding s by (rule Collect_restrict)
  have 7: "ra = Some (StrSet T) \<longrightarrow>
            record_types (FilteredVRSReader_record_filter fv)
              = VRSReader_record_types reader \<inter> T"
    by (simp add: t arg_or_default_def)
  have 8: "ra = Some (Str t) \<longrightarrow>
            record_types (FilteredVRSReader_record_filter fv)
              = {a \<in> VRSReader_record_types reader. a = t}"
    by (auto simp: t arg_or_default_def)
  have 9: "ra = None \<longrightarrow>
            record_types (FilteredVRSReader_record_filter fv)
              = VRSReader_record_types reader"
    by (simp add: t arg_or_default_def)
  show ?thesis
    by (intro conjI) (rule 1 2 3 4 5 6 7 8 9)+
qed

theorem record_filter_resolution_witness:
  "SyncVRSReader_filtered_by_fields (\<lambda>_ _. False) demo_reader
     (Some (StrSet {''*-1'', ''200-?''})) (Some (StrSet {''data'', ''st*''})) None None
     = Inr demo_filtered
   \<and> CHR ''['' \<notin> set ''*-1'' \<and> CHR ''['' \<notin> set ''200-?''
   \<and> stream_ids (FilteredVRSReader_record_filter demo_filtered)
       = {a \<in> VRSReader_stream_ids demo_reader.
            \<exists>p \<in> {''*-1'', ''200-?''}. a \<in> glob_language p}
   \<and> stream_ids (FilteredVRSReader_record_filter demo_filtered) = {''100-1''}
   \<and> record_types (FilteredVRSReader_record_filter demo_filtered)
       = VRSReader_record_types demo_reader \<inter> {''data'', ''st*''}
   \<and> record_types (FilteredVRSReader_record_filter demo_filtered) = {''data''}
   \<and> SyncVRSReader_filtered_by_fields (\<lambda>_ _. False) demo_reader
        (Some (Str ''100-?'')) (Some (Str ''*'')) None None = Inr no_type_filtered
   \<and> CHR ''['' \<notin> set ''100-?''
   \<and> stream_ids (FilteredVRSReader_record_filter no_type_filtered)
       = {a \<in> VRSReader_stream_ids demo_reader. a \<in> glob_language ''100-?''}
   \<and> stream_ids (FilteredVRSReader_record_filter no_type_filtered) = {''100-1'', ''100-2''}
   \<and> record_types (FilteredVRSReader_record_filter no_type_filtered)
       = {a \<in> VRSReader_record_types demo_reader. a = ''*''}
   \<and> record_types (FilteredVRSReader_record_filter no_type_filtered) = {}"
proof -
  note h1 = filtered_by_fields_pattern_set_example
  note h2 = filtered_by_fields_wildcard_example
  have p1: "CHR ''['' \<notin> set ''*-1''" "CHR ''['' \<notin> set ''200-?''"
    and p2: "CHR ''['' \<notin> set ''100-?''"
    by simp_all
  then have p1': "\<forall>p \<in> {''*-1'', ''200-?''}. CHR ''['' \<notin> set p"
    by blast
  have v1: "stream_ids (FilteredVRSReader_record_filter demo_filtered) = {''100-1''}"
    "record_types (FilteredVRSReader_record_filter demo_filtered) = {''data''}"
    by (simp_all add: demo_filtered_def)
  have v2: "stream_ids (FilteredVRSReader_record_filter no_type_filtered) = {''100-1'', ''100-2''}"
    "record_types (FilteredVRSReader_record_filter no_type_filtered) = {}"
    by (simp_all add: no_type_filtered_def no_type_filter_def)
  note t1 = record_filter_resolution[OF h1,
      of "{''*-1'', ''200-?''}" "''x''" "{''data'', ''st*''}" "''y''"]
  note t2 = record_filter_resolution[OF h2, of "{}" "''100-?''" "{}" "''*''"]
  have a: "stream_ids (FilteredVRSReader_record_filter demo_filtered)
       = {a \<in> VRSReader_stream_ids demo_reader.
            \<exists>p \<in> {''*-1'', ''200-?''}. a \<in> glob_language p}"
    by (rule t1[THEN conjunct2, THEN conjunct2, THEN conjunct2, THEN conjunct1, THEN mp,
          OF conjI[OF refl p1']])
  have b: "record_types (FilteredVRSReader_record_filter demo_filtered)
       = VRSReader_record_types demo_reader \<inter> {''data'', ''st*''}"
    by (rule t1[THEN conjunct2, THEN conjunct2, THEN conjunct2, THEN conjunct2, THEN conjunct2,
          THEN conjunct2, THEN conjunct1, THEN mp, OF refl])
  have c: "stream_ids (FilteredVRSReader_record_filter no_type_filtered)
       = {a \<in> VRSReader_stream_ids demo_reader. a \<in> glob_language ''100-?''}"
    by (rule t2[THEN conjunct2, THEN conjunct2, THEN conjunct2, THEN conjunct2, THEN conjunct1,
          THEN mp, OF conjI[OF refl p2]])
  have d: "record_types (FilteredVRSReader_record_filter no_type_filtered)
       = {a \<in> VRSReader_record_types demo_reader. a = ''*''}"
    by (rule t2[THEN conjunct2, THEN conjunct2, THEN conjunct2, THEN conjunct2, THEN conjunct2,
          THEN conjunct2, THEN conjunct2, THEN conjunct1, THEN mp, OF refl])
  show ?thesis
    by (intro conjI) (rule h1 h2 p1 p2 v1 v2 a b c d)+
qed

section \<open>Timestamps of a view\<close>




text \<open>
  C10. A filter whose derived index list is empty yields a view (the construction does not
  fail) with \<open>min_timestamp = 0\<close>, \<open>max_timestamp = 0\<close> and \<open>time_range = 0\<close>; for a
  non-empty list the view's bounds are the timestamps at its first and last absolute
  index.
\<close>

theorem filtered_view_timestamp_bounds:
  "(VRSReader_generate_filtered_indices reader record_filter = [] \<longrightarrow>
      (\<exists>fv. FilteredVRSReader_init reader record_filter = Inr fv
          \<and> FilteredVRSReader_min_timestamp fv = 0
          \<and> FilteredVRSReader_max_timestamp fv = 0
          \<and> FilteredVRSReader_time_range fv = 0))
   \<and> (\<forall>fv. FilteredVRSReader_init reader record_filter = Inr fv
          \<and> VRSReader_generate_filtered_indices reader record_filter \<noteq> [] \<longrightarrow>
        FilteredVRSReader_filtered_indices fv
          = VRSReader_generate_filtered_indices reader record_filter
        \<and> VRSReader_get_timestamp_for_index reader
            (hd (FilteredVRSReader_filtered_indices fv))
          = Inr (FilteredVRSReader_min_timestamp fv)
        \<and> VRSReader_get_timestamp_for_index reader
            (last (FilteredVRSReader_filtered_indices fv))
          = Inr (FilteredVRSReader_max_timestamp fv))"
proof (intro conjI impI allI)
  assume "VRSReader_generate_filtered_indices reader record_filter = []"
  then show "\<exists>fv. FilteredVRSReader_init reader record_filter = Inr fv
          \<and> FilteredVRSReader_min_timestamp fv = 0
          \<and> FilteredVRSReader_max_timestamp fv = 0
          \<and> FilteredVRSReader_time_range fv = 0"
    by (simp add: FilteredVRSReader_init_def FilteredVRSReader_time_range_def)
next
  fix fv
  assume a: "FilteredVRSReader_init reader record_filter = Inr fv
          \<and> VRSReader_generate_filtered_indices reader record_filter \<noteq> []"
  let ?L = "VRSReader_generate_filtered_indices reader record_filter"
  from a have ne: "?L \<noteq> []" by simp
  from a have i: "FilteredVRSReader_init reader record_filter = Inr fv" by simp
  from i ne show "FilteredVRSReader_filtered_indices fv = ?L"
    by (auto simp: FilteredVRSReader_init_def Let_def py_getitem_first py_getitem_last
        split: sum.splits)
  from i ne show "VRSReader_get_timestamp_for_index reader
            (hd (FilteredVRSReader_filtered_indices fv))
          = Inr (FilteredVRSReader_min_timestamp fv)"
    by (auto simp: FilteredVRSReader_init_def Let_def py_getitem_first py_getitem_last
        split: sum.splits)
  from i ne show "VRSReader_get_timestamp_for_index reader
            (last (FilteredVRSReader_filtered_indices fv))
          = Inr (FilteredVRSReader_max_timestamp fv)"
    by (auto simp: FilteredVRSReader_init_def Let_def py_getitem_first py_getitem_last
        split: sum.splits)
qed

theorem filtered_view_timestamp_bounds_witness:
  "VRSReader_generate_filtered_indices demo_reader no_type_filter = []
   \<and> FilteredVRSReader_init demo_reader no_type_filter = Inr no_type_filtered
   \<and> FilteredVRSReader_min_timestamp no_type_filtered = 0
   \<and> FilteredVRSReader_max_timestamp no_type_filtered = 0
   \<and> FilteredVRSReader_time_range no_type_filtered = 0
   \<and> FilteredVRSReader_init demo_reader demo_filter = Inr demo_filtered
   \<and> VRSReader_generate_filtered_indices demo_reader demo_filter \<noteq> []
   \<and> VRSReader_get_timestamp_for_index demo_reader 1
        = Inr (FilteredVRSReader_min_timestamp demo_filtered)
   \<and> VRSReader_get_timestamp_for_index demo_reader 3
        = Inr (FilteredVRSReader_max_timestamp demo_filtered)"
proof -
  have e: "VRSReader_generate_filtered_indices demo_reader no_type_filter = []"
    by (simp add: VRSReader_generate_filtered_indices_def no_type_filter_def demo_reader_def
        VRSReader_init_def catalog_Reader_def)
  have g: "VRSReader_generate_filtered_indices demo_reader demo_filter = [1, 3]"
    by (simp add: VRSReader_generate_filtered_indices_def demo_filter_def demo_reader_def
        VRSReader_init_def catalog_Reader_def demo_catalog_def cat_type_def cat_stream_def
        cat_time_def upt_rec)
  have i: "FilteredVRSReader_init demo_reader demo_filter = Inr demo_filtered"
    using g by (simp add: FilteredVRSReader_init_def py_getitem_def demo_filtered_def
        demo_filter_def[symmetric] VRSReader_get_timestamp_for_index_def demo_reader_def
        VRSReader_init_def catalog_Reader_def demo_catalog_def cat_time_def)
  from filtered_view_timestamp_bounds[of demo_reader no_type_filter] e
  obtain fv where fv: "FilteredVRSReader_init demo_reader no_type_filter = Inr fv"
    "FilteredVRSReader_min_timestamp fv = 0" "FilteredVRSReader_max_timestamp fv = 0"
    "FilteredVRSReader_time_range fv = 0" by blast
  have "FilteredVRSReader_init demo_reader no_type_filter = Inr no_type_filtered"
    using e by (simp add: FilteredVRSReader_init_def no_type_filtered_def)
  with fv have z: "fv = no_type_filtered" by simp
  have L: "FilteredVRSReader_filtered_indices demo_filtered = [1, 3]"
    by (simp add: demo_filtered_def)
  from filtered_view_timestamp_bounds[of demo_reader demo_filter] i g L
  have "VRSReader_get_timestamp_for_index demo_reader 1
        = Inr (FilteredVRSReader_min_timestamp demo_filtered)
   \<and> VRSReader_get_timestamp_for_index demo_reader 3
        = Inr (FilteredVRSReader_max_timestamp demo_filtered)"
    by fastforce
  with e fv z i g show ?thesis by simp
qed

section \<open>Metadata key resolver\<close>

lemma unique_string_loop_fresh:
  "map_of dict' (unique_string_loop name type' dict' i) = None"
proof (induction name type' dict' i rule: unique_string_loop.induct)
  case (1 name type' dict' i)
  show ?case
  proof (cases "map_of dict' (bracketed_key name type' i) = None")
    case True
    then show ?thesis by (subst unique_string_loop.simps) (simp add: Let_def)
  next
    case False
    have "unique_string_loop name type' dict' i = unique_string_loop name type' dict' (i + 1)"
      using False by (subst unique_string_loop.simps) (auto simp: Let_def)
    with "1.IH"[OF refl False] show ?thesis by simp
  qed
qed

lemma unique_string_for_key_fresh:
  "map_of dict' (unique_string_for_key name type' dict') = None"
  by (simp add: unique_string_for_key_def unique_string_loop_fresh)

lemma update_fresh:
  assumes "map_of d k = None"
  shows "length (AList.update k v d) = Suc (length d)"
    and "distinct (map fst d) \<Longrightarrow> distinct (map fst (AList.update k v d))"
proof -
  show "length (AList.update k v d) = Suc (length d)"
    using assms by (induction d) (auto split: if_splits)
  show "distinct (map fst d) \<Longrightarrow> distinct (map fst (AList.update k v d))"
    by (rule distinct_update)
qed

lemma delete_present:
  assumes "map_of d k = Some v" "distinct (map fst d)"
  shows "Suc (length (AList.delete k d)) = length d"
    and "distinct (map fst (AList.delete k d))"
proof -
  show "Suc (length (AList.delete k d)) = length d"
    using assms
  proof (induction d)
    case Nil
    then show ?case by simp
  next
    case (Cons p d)
    show ?case
    proof (cases "fst p = k")
      case True
      with Cons.prems have "k \<notin> fst ` set d" by auto
      then have "AList.delete k d = d" by (rule delete_id)
      with True show ?thesis by (cases p) simp
    next
      case False
      with Cons.prems have "map_of d k = Some v" "distinct (map fst d)"
        by (auto split: if_splits)
      with Cons.IH have "Suc (length (AList.delete k d)) = length d" by simp
      with False show ?thesis by (cases p) auto
    qed
  qed
  show "distinct (map fst (AList.delete k d))"
    using assms(2) by (rule distinct_delete)
qed

lemma stringify_step_inv:
  assumes "resolver_inv st n" "stringify_step st item = Inr st'"
  shows "resolver_inv st' (Suc n)"
proof -
  obtain name type' v where item: "item = ((name, type'), v)" by (cases item) auto
  let ?f = "filtered st"
  from assms(1) have len: "length ?f = n" and dist: "distinct (map fst ?f)"
    by (simp_all add: resolver_inv_def)
  show ?thesis
  proof (cases "name \<in> ambiguous_names st")
    case True
    with assms(2) item have "filtered st' =
        AList.update (unique_string_for_key name type' ?f) v ?f"
      by (auto simp: stringify_step_def)
    with len dist show ?thesis
      by (simp add: resolver_inv_def update_fresh unique_string_for_key_fresh)
  next
    case na: False
    show ?thesis
    proof (cases "map_of ?f name")
      case None
      with na assms(2) item have "filtered st' = AList.update name v ?f"
        by (auto simp: stringify_step_def)
      with len dist None show ?thesis
        by (simp add: resolver_inv_def update_fresh)
    next
      case (Some old_value)
      let ?f1 = "AList.delete name ?f"
      from Some na assms(2) item obtain old_type r1 where
        st': "filtered st' =
                AList.update (unique_string_for_key name type'
                    (AList.update (unique_string_for_key name old_type ?f1) old_value ?f1)) v
                  (AList.update (unique_string_for_key name old_type ?f1) old_value ?f1)"
        by (auto simp: stringify_step_def dict_pop_def Let_def split: sum.splits option.splits)
      from delete_present[OF Some dist] len
      have l1: "Suc (length ?f1) = n" and d1: "distinct (map fst ?f1)" by simp_all
      let ?f2 = "AList.update (unique_string_for_key name old_type ?f1) old_value ?f1"
      have l2: "length ?f2 = n" and d2: "distinct (map fst ?f2)"
        using l1 d1 by (simp_all add: update_fresh unique_string_for_key_fresh)
      have "length (filtered st') = Suc n" "distinct (map fst (filtered st'))"
        unfolding st' using l2 d2 by (simp_all add: update_fresh unique_string_for_key_fresh)
      then show ?thesis by (simp add: resolver_inv_def)
    qed
  qed
qed

lemma stringify_loop_inv:
  "resolver_inv st n \<Longrightarrow> stringify_loop st items = Inr st' \<Longrightarrow>
   resolver_inv st' (n + length items)"
proof (induction items arbitrary: st n)
  case Nil
  then show ?case by simp
next
  case (Cons item items)
  from Cons.prems(2) obtain st1 where s1: "stringify_step st item = Inr st1"
    and rest: "stringify_loop st1 items = Inr st'"
    by (auto split: sum.splits)
  from stringify_step_inv[OF Cons.prems(1) s1] have "resolver_inv st1 (Suc n)" .
  from Cons.IH[OF this rest] show ?case by simp
qed

lemma stringify_metadata_keys_size:
  assumes "stringify_metadata_keys metadata_dict = Inr out"
  shows "length out = length metadata_dict \<and> distinct (map fst out)"
proof -
  from assms obtain st where
    l: "stringify_loop \<lparr>filtered = [], ambiguous_names = {}, removed_types = []\<rparr> metadata_dict = Inr st"
    and o: "out = filtered st"
    by (auto simp: stringify_metadata_keys_def split: sum.splits)
  have "resolver_inv \<lparr>filtered = [], ambiguous_names = {}, removed_types = []\<rparr> 0"
    by (simp add: resolver_inv_def)
  from stringify_loop_inv[OF this l] o show ?thesis by (simp add: resolver_inv_def)
qed

lemma map_of_drop_value:
  "map_of (map (\<lambda>(n, t, v). (n, t)) bare) n = map_option fst (map_of bare n)"
  by (induction bare) auto

lemma delete_drop_value:
  "AList.delete k (map (\<lambda>(n, t, v). (n, t)) bare) = map (\<lambda>(n, t, v). (n, t)) (AList.delete k bare)"
  by (induction bare) auto

lemma update_drop_value:
  "AList.update k t (map (\<lambda>(n, t, v). (n, t)) bare)
     = map (\<lambda>(n, t, v). (n, t)) (AList.update k (t, v) bare)"
  by (induction bare) auto

lemma stringify_step_refines:
  assumes rel: "resolver_rel st sp" and step: "stringify_step st item = Inr st'"
  shows "resolver_rel st' (resolve_entry sp item)"
proof -
  obtain name type' v where item: "item = ((name, type'), v)" by (cases item) auto
  from rel have f: "filtered st = spec_out sp" and a: "ambiguous_names st = spec_ambiguous sp"
    and r: "removed_types st = map (\<lambda>(n, t, v). (n, t)) (spec_bare sp)"
    and b: "\<And>n t v. map_of (spec_bare sp) n = Some (t, v) \<Longrightarrow> map_of (spec_out sp) n = Some v"
    by (auto simp: resolver_rel_def)
  show ?thesis
  proof (cases "name \<in> ambiguous_names st")
    case True
    let ?k = "unique_string_for_key name type' (spec_out sp)"
    from True step item f have st': "st' = st\<lparr>filtered := AList.update ?k v (spec_out sp)\<rparr>"
      by (auto simp: stringify_step_def)
    from True a item have sp': "resolve_entry sp item = sp\<lparr>spec_out := AList.update ?k v (spec_out sp)\<rparr>"
      by (simp add: resolve_entry_def)
    have fresh: "map_of (spec_out sp) ?k = None" by (rule unique_string_for_key_fresh)
    have "map_of (AList.update ?k v (spec_out sp)) n = Some w"
      if "map_of (spec_bare sp) n = Some (t, w)" for n t w
    proof -
      from b[OF that] have "map_of (spec_out sp) n = Some w" .
      with fresh have "n \<noteq> ?k" by auto
      with \<open>map_of (spec_out sp) n = Some w\<close> show ?thesis by (simp add: update_conv')
    qed
    with a r show ?thesis unfolding st' sp' by (simp add: resolver_rel_def)
  next
    case na: False
    show ?thesis
    proof (cases "map_of (filtered st) name")
      case None
      have nb: "map_of (spec_bare sp) name = None"
      proof (cases "map_of (spec_bare sp) name")
        case (Some tv)
        then obtain t w where "map_of (spec_bare sp) name = Some (t, w)" by (cases tv) auto
        from b[OF this] None f show ?thesis by simp
      qed simp
      from None na step item f have st': "st' = st\<lparr>filtered := AList.update name v (spec_out sp),
                     removed_types := AList.update name type' (removed_types st)\<rparr>"
        by (auto simp: stringify_step_def)
      from nb na a item have sp': "resolve_entry sp item =
              sp\<lparr>spec_out := AList.update name v (spec_out sp),
                     spec_bare := AList.update name (type', v) (spec_bare sp)\<rparr>"
        by (simp add: resolve_entry_def)
      have "map_of (AList.update name v (spec_out sp)) n = Some w"
        if "map_of (AList.update name (type', v) (spec_bare sp)) n = Some (t, w)" for n t w
        using that b[of n t w] by (auto simp: update_conv' split: if_splits)
      with a r show ?thesis unfolding st' sp'
        by (simp add: resolver_rel_def update_drop_value)
    next
      case (Some old_value)
      let ?f1 = "AList.delete name (spec_out sp)"
      from Some na step item f obtain old_type where
        ot: "map_of (removed_types st) name = Some old_type"
        by (auto simp: stringify_step_def dict_pop_def split: option.splits sum.splits)
      with r obtain w where bw: "map_of (spec_bare sp) name = Some (old_type, w)"
        by (auto simp: map_of_drop_value)
      from b[OF bw] Some f have w: "w = old_value" by simp
      let ?k1 = "unique_string_for_key name old_type ?f1"
      let ?f2 = "AList.update ?k1 old_value ?f1"
      let ?k2 = "unique_string_for_key name type' ?f2"
      let ?f3 = "AList.update ?k2 v ?f2"
      from Some na step item f ot have st': "st' = \<lparr>filtered = ?f3,
                  ambiguous_names = insert name (ambiguous_names st),
                  removed_types = AList.delete name (removed_types st)\<rparr>"
        by (auto simp: stringify_step_def dict_pop_def Let_def)
      from bw w na a item have sp': "resolve_entry sp item = \<lparr>spec_out = ?f3,
                  spec_ambiguous = insert name (spec_ambiguous sp),
                  spec_bare = AList.delete name (spec_bare sp)\<rparr>"
        by (simp add: resolve_entry_def Let_def)
      have k1: "map_of ?f1 ?k1 = None" and k2: "map_of ?f2 ?k2 = None"
        by (rule unique_string_for_key_fresh)+
      have "map_of ?f3 n = Some u"
        if "map_of (AList.delete name (spec_bare sp)) n = Some (t, u)" for n t u
      proof -
        from that have nn: "n \<noteq> name" and "map_of (spec_bare sp) n = Some (t, u)"
          by (auto simp: delete_conv' split: if_splits)
        from b[OF this(2)] nn have 1: "map_of ?f1 n = Some u" by (simp add: delete_conv')
        with k1 have "n \<noteq> ?k1" by auto
        with 1 have 2: "map_of ?f2 n = Some u" by (simp add: update_conv')
        with k2 have "n \<noteq> ?k2" by auto
        with 2 show ?thesis by (simp add: update_conv')
      qed
      with a r show ?thesis unfolding st' sp'
        by (simp add: resolver_rel_def delete_drop_value)
    qed
  qed
qed

lemma stringify_loop_refines:
  "resolver_rel st sp \<Longrightarrow> stringify_loop st items = Inr st' \<Longrightarrow>
   resolver_rel st' (fold (\<lambda>item sp. resolve_entry sp item) items sp)"
proof (induction items arbitrary: st sp)
  case Nil
  then show ?case by simp
next
  case (Cons item items)
  from Cons.prems(2) obtain st1 where s1: "stringify_step st item = Inr st1"
    and rest: "stringify_loop st1 items = Inr st'"
    by (auto split: sum.splits)
  from stringify_step_refines[OF Cons.prems(1) s1]
  have "resolver_rel st1 (resolve_entry sp item)" .
  from Cons.IH[OF this rest] show ?case by simp
qed

lemma stringify_metadata_keys_refines:
  assumes "stringify_metadata_keys metadata_dict = Inr out"
  shows "out = resolve_spec metadata_dict"
proof -
  from assms obtain st where
    l: "stringify_loop \<lparr>filtered = [], ambiguous_names = {}, removed_types = []\<rparr> metadata_dict = Inr st"
    and o: "out = filtered st"
    by (auto simp: stringify_metadata_keys_def split: sum.splits)
  have "resolver_rel \<lparr>filtered = [], ambiguous_names = {}, removed_types = []\<rparr>
          \<lparr>spec_out = [], spec_ambiguous = {}, spec_bare = []\<rparr>"
    by (simp add: resolver_rel_def)
  from stringify_loop_refines[OF this l] o show ?thesis
    by (simp add: resolver_rel_def resolve_spec_def)
qed

lemma unique_string_loop_least:
  "\<exists>j \<ge> i. unique_string_loop name type' dict' i = bracketed_key name type' j
     \<and> map_of dict' (bracketed_key name type' j) = None
     \<and> (\<forall>m. i \<le> m \<and> m < j \<longrightarrow> map_of dict' (bracketed_key name type' m) \<noteq> None)"
proof (induction name type' dict' i rule: unique_string_loop.induct)
  case (1 name type' dict' i)
  show ?case
  proof (cases "map_of dict' (bracketed_key name type' i) = None")
    case True
    then have "unique_string_loop name type' dict' i = bracketed_key name type' i"
      by (subst unique_string_loop.simps) (simp add: Let_def)
    with True show ?thesis by (intro exI[of _ i]) auto
  next
    case False
    have eq: "unique_string_loop name type' dict' i = unique_string_loop name type' dict' (i + 1)"
      using False by (subst unique_string_loop.simps) (auto simp: Let_def)
    from "1.IH"[OF refl False] obtain j where j: "i + 1 \<le> j"
      "unique_string_loop name type' dict' (i + 1) = bracketed_key name type' j"
      "map_of dict' (bracketed_key name type' j) = None"
      "\<forall>m. i + 1 \<le> m \<and> m < j \<longrightarrow> map_of dict' (bracketed_key name type' m) \<noteq> None"
      by blast
    have "\<forall>m. i \<le> m \<and> m < j \<longrightarrow> map_of dict' (bracketed_key name type' m) \<noteq> None"
    proof (intro allI impI)
      fix m assume m: "i \<le> m \<and> m < j"
      show "map_of dict' (bracketed_key name type' m) \<noteq> None"
      proof (cases "m = i")
        case True
        with False show ?thesis by simp
      next
        case False
        with m have "i + 1 \<le> m \<and> m < j" by simp
        with j(4) show ?thesis by blast
      qed
    qed
    with j eq show ?thesis by (intro exI[of _ j]) auto
  qed
qed

text \<open>
  The three cases of pyvrs_utils_test.py.
\<close>

lemma test_basic_stringify_types:
  "stringify_metadata_keys
     [((''varnamea'', ''typenamea''), ''aval''), ((''varnameb'', ''typenameb''), ''bval'')]
   = Inr [(''varnamea'', ''aval''), (''varnameb'', ''bval'')]"
  by code_simp

lemma test_stringify_types_with_collision:
  "stringify_metadata_keys
     [((''varname'', ''typenamea''), ''aval''), ((''varname'', ''typenameb''), ''bval''),
      ((''varnameother'', ''typenameb''), ''cval'')]
   = Inr [(''varname<typenamea>'', ''aval''), (''varname<typenameb>'', ''bval''),
          (''varnameother'', ''cval'')]"
  by code_simp

lemma test_stringify_types_with_ambiguity:
  "stringify_metadata_keys
     [((''acceleration<int>'', ''int''), 2 :: int), ((''acceleration'', ''int''), 3),
      ((''acceleration'', ''float''), 4), ((''other'', ''int''), 5)]
   = Inr [(''acceleration<int>'', 2), (''acceleration<<int>>'', 3),
          (''acceleration<float>'', 4), (''other'', 5)]"
  by code_simp

text \<open>
  C3. The entries of \<open>test_stringify_types_with_ambiguity\<close> in another order: the name
  \<open>acceleration<int>\<close> occurs for the first time after \<open>acceleration\<close> has been re-keyed
  to \<open>acceleration<int>\<close>. The resolver does not store it under the bare name; it takes
  the synthesized key for an earlier bare entry and raises KeyError at
  \<open>removed_types.pop(name)\<close>.
\<close>

theorem stringify_reordered_test_raises:
  "stringify_metadata_keys
     [((''acceleration'', ''int''), 3 :: int), ((''acceleration'', ''float''), 4),
      ((''acceleration<int>'', ''int''), 2), ((''other'', ''int''), 5)]
   = Inl KeyError"
  by code_simp

text \<open>
  C4. Three entries with pairwise distinct \<open>(name, type)\<close> keys for which the resolver
  returns no mapping at all: it raises KeyError on the third.
\<close>

theorem stringify_no_output_for_distinct_keys:
  "distinct [(''a'', ''x''), (''a'', ''y''), (''a<x>'', ''z'')]
   \<and> stringify_metadata_keys
        [((''a'', ''x''), 1 :: int), ((''a'', ''y''), 2), ((''a<x>'', ''z''), 3)]
      = Inl KeyError"
  by code_simp

section \<open>Indexing and slicing a view\<close>










section \<open>Operations a filtered view refuses\<close>

text \<open>
  C9, as stated, fails: \<open>filtered_by_fields\<close> is not defined on the filtered classes, so
  re-filtering a \<open>SyncFilteredVRSReader\<close> ends in AttributeError, not in
  NotImplementedError.
\<close>

theorem refilter_counterexample:
  "py_getattr Cls_SyncFilteredVRSReader ''filtered_by_fields'' = Inl AttributeError
   \<and> py_getattr Cls_SyncFilteredVRSReader ''filtered_by_fields'' \<noteq> Inl NotImplementedError"
  by (simp add: py_getattr_def base_defines_def)

text \<open>
  C9, amended. No filtered reader class defines or inherits \<open>filtered_by_fields\<close>: the
  attempt to re-filter fails with AttributeError before any filter is built. The three
  image-conversion setters resolve to \<open>FilteredVRSReader\<close>, whose bodies raise
  NotImplementedError.
\<close>

theorem filtered_view_not_supported:
  assumes "is_filtered_class cls"
  shows "py_getattr cls ''filtered_by_fields'' = Inl AttributeError
       \<and> py_getattr cls ''set_image_conversion'' = Inr Cls_FilteredVRSReader
       \<and> py_getattr cls ''set_stream_image_conversion'' = Inr Cls_FilteredVRSReader
       \<and> py_getattr cls ''set_stream_type_image_conversion'' = Inr Cls_FilteredVRSReader
       \<and> FilteredVRSReader_set_image_conversion self conversion = Inl NotImplementedError
       \<and> FilteredVRSReader_set_stream_image_conversion self stream_id conversion
           = Inl NotImplementedError
       \<and> FilteredVRSReader_set_stream_type_image_conversion self recordable_type_id conversion
           = Inl NotImplementedError"
proof -
  from assms consider "cls = Cls_FilteredVRSReader" | "cls = Cls_SyncFilteredVRSReader"
    | "cls = Cls_AsyncFilteredVRSReader"
    by (auto simp: is_filtered_class_def)
  then have "py_getattr cls ''filtered_by_fields'' = Inl AttributeError
       \<and> py_getattr cls ''set_image_conversion'' = Inr Cls_FilteredVRSReader
       \<and> py_getattr cls ''set_stream_image_conversion'' = Inr Cls_FilteredVRSReader
       \<and> py_getattr cls ''set_stream_type_image_conversion'' = Inr Cls_FilteredVRSReader"
    by cases (simp_all add: py_getattr_def base_defines_def)
  then show ?thesis
    by (simp add: FilteredVRSReader_set_image_conversion_def
        FilteredVRSReader_set_stream_image_conversion_def
        FilteredVRSReader_set_stream_type_image_conversion_def)
qed

theorem filtered_view_not_supported_witness:
  "is_filtered_class Cls_SyncFilteredVRSReader
   \<and> py_getattr Cls_SyncFilteredVRSReader ''filtered_by_fields'' = Inl AttributeError
   \<and> py_getattr Cls_SyncFilteredVRSReader ''set_image_conversion'' = Inr Cls_FilteredVRSReader
   \<and> FilteredVRSReader_set_image_conversion demo_filtered () = Inl NotImplementedError
   \<and> py_getattr Cls_SyncVRSReader ''filtered_by_fields'' = Inr Cls_SyncVRSReader"
proof -
  have h: "is_filtered_class Cls_SyncFilteredVRSReader"
    by (simp add: is_filtered_class_def)
  have "py_getattr Cls_SyncVRSReader ''filtered_by_fields'' = Inr Cls_SyncVRSReader"
    by (simp add: py_getattr_def)
  with filtered_view_not_supported[OF h, of demo_filtered "()"] h show ?thesis by simp
qed

end
